theory Spec2Isabelle
  imports Complex_Main
begin

section \<open>The meeting-slot finder: POST /find-meeting-slots\<close>

text \<open>
  A shallow embedding of the handler of \<^verbatim>\<open>app.post('/find-meeting-slots', ...)\<close>.
  The handler is a pure computation over the request body, the luxon \<^verbatim>\<open>DateTime\<close>
  library and a few JavaScript built-ins. The library is not part of the repository, so it
  is a parameter of the model (the record \<open>env\<close> below); everything the handler itself
  does is written out.

  Conventions of the model:
  \<^item> a JavaScript string is a \<open>string\<close> of ASCII characters: \<open>trim\<close> removes the six ASCII
    white-space characters and \<open>toLowerCase\<close> maps \<open>A\<close>..\<open>Z\<close>;
  \<^item> a JavaScript number that holds an integer is an \<open>int\<close>: the duration and the bound of
    the hour loop (\<open>duration/60\<close>, \<open>Math.ceil\<close>, \<open>17 - _\<close>) are computed on integers, which is
    what the doubles of the source hold below \<open>2^53\<close>, and a neighbouring double beyond;
    \<open>NaN\<close> is \<open>None\<close>;
  \<^item> an exception is a value \<open>Inl (Thrown msg)\<close> of the type \<open>fault + 'a\<close>.
\<close>

subsection \<open>Values of the request body\<close>

datatype jsval =
    JUndefined
  | JNull
  | JBool bool
  | JNum int
  | JStr string
  | JOther string  \<comment> \<open>any other value (array, object, fractional number), carried as the text \<open>String(v)\<close> gives\<close>

record request =
  userTimezone :: jsval
  leadLocations :: jsval
  callDuration :: jsval

datatype fault = Thrown string

datatype response =
    Status400 string  \<comment> \<open>\<open>res.status(400).json({ error })\<close>\<close>
  | Json200 string string  \<comment> \<open>\<open>res.json({ slotsTableHtml, meetingLink })\<close>\<close>

subsection \<open>String built-ins\<close>

definition is_space :: "char \<Rightarrow> bool" where
  "is_space c = (c \<in> set [CHR 0x09, CHR 0x0A, CHR 0x0B, CHR 0x0C, CHR 0x0D, CHR '' ''])"

definition trim :: "string \<Rightarrow> string" where
  "trim s = rev (dropWhile is_space (rev (dropWhile is_space s)))"

definition lower_char :: "char \<Rightarrow> char" where
  "lower_char c = (let n = (of_char c :: nat) in if 65 \<le> n \<and> n \<le> 90 then char_of (n + 32) else c)"

definition toLowerCase :: "string \<Rightarrow> string" where
  "toLowerCase s = map lower_char s"

text \<open>\<open>s.split(',')\<close>: the pieces between the commas, empty pieces included.\<close>

fun split_comma :: "string \<Rightarrow> string list" where
  "split_comma [] = [[]]"
| "split_comma (c # cs) =
     (if c = CHR '','' then [] # split_comma cs
      else (case split_comma cs of [] \<Rightarrow> [[c]] | p # ps \<Rightarrow> (c # p) # ps))"

text \<open>\<open>ps.join(',')\<close>, to say what \<open>split_comma\<close> returns.\<close>

fun join_comma :: "string list \<Rightarrow> string" where
  "join_comma [] = []"
| "join_comma [p] = p"
| "join_comma (p # q # ps) = p @ CHR '','' # join_comma (q # ps)"

definition digit_char :: "nat \<Rightarrow> char" where
  "digit_char n = char_of (48 + n)"

function decimal :: "nat \<Rightarrow> string" where
  "decimal n = (if n < 10 then [digit_char n] else decimal (n div 10) @ [digit_char (n mod 10)])"
  by pat_completeness auto
termination
  by (relation "measure id") auto

declare decimal.simps [simp del]

text \<open>\<open>String(n)\<close> for an integer-valued number.\<close>

definition show_int :: "int \<Rightarrow> string" where
  "show_int i = (if i < 0 then CHR ''-'' # decimal (nat (- i)) else decimal (nat i))"

definition toString :: "jsval \<Rightarrow> string" where
  "toString v =
     (case v of
        JUndefined \<Rightarrow> ''undefined''
      | JNull \<Rightarrow> ''null''
      | JBool b \<Rightarrow> (if b then ''true'' else ''false'')
      | JNum n \<Rightarrow> show_int n
      | JStr s \<Rightarrow> s
      | JOther r \<Rightarrow> r)"

definition is_digit :: "char \<Rightarrow> bool" where
  "is_digit c = (let n = (of_char c :: nat) in 48 \<le> n \<and> n \<le> 57)"

definition digits_value :: "string \<Rightarrow> int" where
  "digits_value ds = foldl (\<lambda>acc c. 10 * acc + (int (of_char c) - 48)) 0 ds"

text \<open>
  \<open>parseInt(v, 10)\<close>: the argument is converted to a string, leading white space is
  skipped, one sign is read, then the longest run of decimal digits; no digit gives \<open>NaN\<close>.
\<close>

definition parseInt :: "jsval \<Rightarrow> int option" where
  "parseInt v =
     (let s = dropWhile is_space (toString v);
          neg = (case s of c # _ \<Rightarrow> c = CHR ''-'' | [] \<Rightarrow> False);
          r = (case s of c # cs \<Rightarrow> (if c = CHR ''-'' \<or> c = CHR ''+'' then cs else s) | [] \<Rightarrow> s);
          ds = takeWhile is_digit r
      in if ds = [] then None
         else Some (if neg then - digits_value ds else digits_value ds))"

subsection \<open>The request checks and the duration\<close>

text \<open>\<open>!x || typeof x !== 'string' || x.trim().length === 0\<close>\<close>

definition field_missing :: "jsval \<Rightarrow> bool" where
  "field_missing v = (case v of JStr s \<Rightarrow> s = [] \<or> length (trim s) = 0 | _ \<Rightarrow> True)"

text \<open>\<open>parseInt(callDuration, 10) || 30\<close>: \<open>NaN\<close> and \<open>0\<close> are falsy.\<close>

definition duration_of :: "jsval \<Rightarrow> int" where
  "duration_of v = (case parseInt v of None \<Rightarrow> 30 | Some n \<Rightarrow> (if n = 0 then 30 else n))"

subsection \<open>Resolving locations\<close>

text \<open>
  A value handed to \<open>setZone\<close> and printed by \<open>${tz}\<close>: a string, or a member that the
  object literal \<open>cityToTz\<close> inherits from \<open>Object.prototype\<close>, which \<open>cityToTz[key]\<close>
  also returns.
\<close>

datatype zone_arg = ZName string | ZInherited string

definition cityToTz :: "(string \<times> string) list" where
  "cityToTz =
    [(''new york'', ''America/New_York''),
     (''london'', ''Europe/London''),
     (''mumbai'', ''Asia/Kolkata''),
     (''san francisco'', ''America/Los_Angeles''),
     (''berlin'', ''Europe/Berlin''),
     (''sydney'', ''Australia/Sydney''),
     (''tokyo'', ''Asia/Tokyo''),
     (''singapore'', ''Asia/Singapore''),
     (''paris'', ''Europe/Paris''),
     (''chicago'', ''America/Chicago''),
     (''delhi'', ''Asia/Kolkata''),
     (''boston'', ''America/New_York''),
     (''los angeles'', ''America/Los_Angeles''),
     (''toronto'', ''America/Toronto''),
     (''dubai'', ''Asia/Dubai''),
     (''shanghai'', ''Asia/Shanghai''),
     (''hong kong'', ''Asia/Hong_Kong''),
     (''seoul'', ''Asia/Seoul''),
     (''amsterdam'', ''Europe/Amsterdam''),
     (''zurich'', ''Europe/Zurich''),
     (''madrid'', ''Europe/Madrid''),
     (''rome'', ''Europe/Rome''),
     (''istanbul'', ''Europe/Istanbul''),
     (''johannesburg'', ''Africa/Johannesburg''),
     (''sao paulo'', ''America/Sao_Paulo''),
     (''mexico city'', ''America/Mexico_City''),
     (''vancouver'', ''America/Vancouver''),
     (''bengaluru'', ''Asia/Kolkata'')]"

text \<open>
  The members of \<open>Object.prototype\<close> whose names survive \<open>toLowerCase\<close>: the function
  \<open>Object\<close> under \<open>constructor\<close> and the prototype object under \<open>__proto__\<close>.
\<close>

definition inherited_keys :: "string list" where
  "inherited_keys = [''constructor'', ''__proto__'']"

text \<open>\<open>cityToTz[key]\<close>; \<open>None\<close> is \<open>undefined\<close>.\<close>

definition cityToTz_get :: "string \<Rightarrow> zone_arg option" where
  "cityToTz_get key =
     (case map_of cityToTz key of
        Some z \<Rightarrow> Some (ZName z)
      | None \<Rightarrow> (if key \<in> set inherited_keys then Some (ZInherited key) else None))"

text \<open>\<open>leadLocations.split(',').map(s => s.trim()).filter(Boolean)\<close>\<close>

definition lead_tokens :: "string \<Rightarrow> string list" where
  "lead_tokens s = filter (\<lambda>t. t \<noteq> []) (map trim (split_comma s))"

text \<open>\<open>cityToTz[tz.toLowerCase()] || tz || 'UTC'\<close>; every value of the table is truthy.\<close>

definition resolveTz :: "string \<Rightarrow> zone_arg" where
  "resolveTz tz =
     (case cityToTz_get (toLowerCase tz) of
        Some z \<Rightarrow> z
      | None \<Rightarrow> (if tz \<noteq> [] then ZName tz else ZName ''UTC''))"

definition resolvedTzs :: "string \<Rightarrow> zone_arg list" where
  "resolvedTzs s = map resolveTz (lead_tokens s)"

text \<open>The text \<open>${tz}\<close> puts into a template.\<close>

definition zone_text :: "zone_arg \<Rightarrow> string" where
  "zone_text z =
     (case z of
        ZName s \<Rightarrow> s
      | ZInherited k \<Rightarrow>
          (if k = ''constructor'' then ''function Object() { [native code] }''
           else ''[object Object]''))"

subsection \<open>The library\<close>

text \<open>
  The operations of luxon and of the runtime that the handler calls, on a type \<open>'dt\<close> of
  \<open>DateTime\<close> values. \<open>now k\<close> is the value of the \<open>k\<close>-th call of \<open>DateTime.now()\<close> in the
  request. A method may throw; the getters \<open>isValid\<close> and \<open>hour\<close> do not, and \<open>hour\<close> is
  \<open>NaN\<close> (\<open>None\<close>) on an invalid \<open>DateTime\<close>.
  \<^item> \<open>setZone dt tz\<close> is \<open>dt.setZone(tz)\<close> and \<open>dt.setZone(tz, { keepLocalTime: false })\<close>;
  \<^item> \<open>plusDays dt n\<close> is \<open>dt.plus({ days: n })\<close>, \<open>plusMinutes dt n\<close> is \<open>dt.plus({ minutes: n })\<close>;
  \<^item> \<open>setHour dt h\<close> is \<open>dt.set({ hour: h, minute: 0, second: 0, millisecond: 0 })\<close>;
  \<^item> \<open>toFormat dt\<close> is \<open>dt.toFormat('ccc, dd LLL yyyy HH:mm')\<close>.
\<close>

record 'dt env =
  now :: "nat \<Rightarrow> 'dt"
  setZone :: "'dt \<Rightarrow> zone_arg \<Rightarrow> fault + 'dt"
  isValid :: "'dt \<Rightarrow> bool"
  plusDays :: "'dt \<Rightarrow> int \<Rightarrow> fault + 'dt"
  plusMinutes :: "'dt \<Rightarrow> int \<Rightarrow> fault + 'dt"
  setHour :: "'dt \<Rightarrow> int \<Rightarrow> fault + 'dt"
  hour :: "'dt \<Rightarrow> int option"
  toFormat :: "'dt \<Rightarrow> fault + string"
  toISO :: "'dt \<Rightarrow> fault + string"
  encodeURIComponent :: "string \<Rightarrow> fault + string"

subsection \<open>Control flow with exceptions\<close>

definition bind :: "fault + 'a \<Rightarrow> ('a \<Rightarrow> fault + 'b) \<Rightarrow> fault + 'b" where
  "bind m f = (case m of Inl e \<Rightarrow> Inl e | Inr x \<Rightarrow> f x)"

text \<open>\<open>xs.map(f)\<close> with a callback that may throw.\<close>

fun traverse :: "('a \<Rightarrow> fault + 'b) \<Rightarrow> 'a list \<Rightarrow> fault + 'b list" where
  "traverse f [] = Inr []"
| "traverse f (x # xs) = bind (f x) (\<lambda>y. bind (traverse f xs) (\<lambda>ys. Inr (y # ys)))"

text \<open>A loop over \<open>xs\<close> whose body updates the state \<open>s\<close> and may throw.\<close>

fun for_each :: "('s \<Rightarrow> 'a \<Rightarrow> fault + 's) \<Rightarrow> 'a list \<Rightarrow> 's \<Rightarrow> fault + 's" where
  "for_each body [] s = Inr s"
| "for_each body (x # xs) s = bind (body s x) (for_each body xs)"

subsection \<open>Validation of the zones\<close>

text \<open>
  \<open>try { return !!DateTime.now().setZone(tz).isValid } catch { return false }\<close>,
  on the \<open>k\<close>-th element of \<open>[userTimezone, ...resolvedTzs]\<close>.
\<close>

definition zone_valid :: "'dt env \<Rightarrow> nat \<Rightarrow> zone_arg \<Rightarrow> bool" where
  "zone_valid L k tz = (case setZone L (now L k) tz of Inl _ \<Rightarrow> False | Inr d \<Rightarrow> isValid L d)"

definition validTzs :: "'dt env \<Rightarrow> zone_arg list \<Rightarrow> bool" where
  "validTzs L zs = list_all (\<lambda>(k, tz). zone_valid L k tz) (enumerate 0 zs)"

subsection \<open>The search\<close>

record slot =
  user :: string
  leads :: "string list"
  link :: string

definition ceil60 :: "int \<Rightarrow> int" where
  "ceil60 d = - ((- d) div 60)"  \<comment> \<open>\<open>Math.ceil(duration/60)\<close>\<close>

text \<open>
  \<open>for (let hour = h; hour <= hi; hour++)\<close>: the values \<open>hour\<close> takes, with the counter as
  an integer. That is the loop of the source when \<open>hi\<close> is below \<open>2^53\<close>; \<open>counted_loop\<close>
  below is the loop for every bound.
\<close>

function hours_from :: "int \<Rightarrow> int \<Rightarrow> int list" where
  "hours_from h hi = (if h \<le> hi then h # hours_from (h + 1) hi else [])"
  by pat_completeness auto
termination
  by (relation "measure (\<lambda>(h, hi). nat (hi + 1 - h))") auto

declare hours_from.simps [simp del]

definition candidate_hours :: "int \<Rightarrow> int list" where
  "candidate_hours duration = hours_from 9 (17 - ceil60 duration)"

definition days :: "int list" where
  "days = [0, 1, 2]"  \<comment> \<open>\<open>for (let day = 0; day < 3; day++)\<close>\<close>

definition hour_ge :: "int option \<Rightarrow> int \<Rightarrow> bool" where
  "hour_ge x n = (case x of None \<Rightarrow> False | Some h \<Rightarrow> n \<le> h)"

definition hour_le :: "int option \<Rightarrow> int \<Rightarrow> bool" where
  "hour_le x n = (case x of None \<Rightarrow> False | Some h \<Rightarrow> h \<le> n)"

text \<open>The callback of \<open>resolvedTzs.every\<close>: a throw inside it counts as \<open>false\<close>.\<close>

definition lead_ok :: "'dt env \<Rightarrow> 'dt \<Rightarrow> 'dt \<Rightarrow> zone_arg \<Rightarrow> bool" where
  "lead_ok L start finish tz =
     (case setZone L start tz of
        Inl _ \<Rightarrow> False
      | Inr leadStart \<Rightarrow>
          (case setZone L finish tz of
             Inl _ \<Rightarrow> False
           | Inr leadEnd \<Rightarrow> hour_ge (hour L leadStart) 9 \<and> hour_le (hour L leadEnd) 17))"

definition allOk :: "'dt env \<Rightarrow> zone_arg list \<Rightarrow> 'dt \<Rightarrow> 'dt \<Rightarrow> bool" where
  "allOk L tzs start finish = list_all (lead_ok L start finish) tzs"

text \<open>One entry of \<open>leads\<close>, and the object pushed onto \<open>slots\<close>.\<close>

definition lead_label :: "'dt env \<Rightarrow> 'dt \<Rightarrow> zone_arg \<Rightarrow> fault + string" where
  "lead_label L start tz =
     bind (setZone L start tz) (\<lambda>p.
     bind (toFormat L p) (\<lambda>f.
     Inr (f @ '' ('' @ zone_text tz @ '')'')))"

definition make_slot :: "'dt env \<Rightarrow> string \<Rightarrow> zone_arg list \<Rightarrow> int \<Rightarrow> 'dt \<Rightarrow> fault + slot" where
  "make_slot L uz tzs duration start =
     bind (toFormat L start) (\<lambda>f.
     bind (traverse (lead_label L start) tzs) (\<lambda>ls.
     bind (encodeURIComponent L uz) (\<lambda>e1.
     bind (toISO L start) (\<lambda>iso.
     bind (encodeURIComponent L iso) (\<lambda>e2.
     Inr \<lparr>user = f @ '' ('' @ uz @ '')'',
          leads = ls,
          link = ''https://cal.com/book?tz='' @ e1 @ ''&start='' @ e2
                 @ ''&duration='' @ show_int duration\<rparr>)))))"

text \<open>The body of the inner loop, and the two loops.\<close>

definition try_hour ::
  "'dt env \<Rightarrow> string \<Rightarrow> zone_arg list \<Rightarrow> int \<Rightarrow> 'dt \<Rightarrow> slot list \<Rightarrow> int \<Rightarrow> fault + slot list" where
  "try_hour L uz tzs duration date slots h =
     bind (setHour L date h) (\<lambda>start.
     bind (plusMinutes L start duration) (\<lambda>finish.
     if allOk L tzs start finish
     then bind (make_slot L uz tzs duration start) (\<lambda>s. Inr (slots @ [s]))
     else Inr slots))"

definition try_day ::
  "'dt env \<Rightarrow> string \<Rightarrow> zone_arg list \<Rightarrow> int \<Rightarrow> 'dt \<Rightarrow> slot list \<Rightarrow> int \<Rightarrow> fault + slot list" where
  "try_day L uz tzs duration now0 slots day =
     bind (plusDays L now0 day) (\<lambda>date.
     for_each (try_hour L uz tzs duration date) (candidate_hours duration) slots)"

definition find_slots :: "'dt env \<Rightarrow> string \<Rightarrow> zone_arg list \<Rightarrow> int \<Rightarrow> fault + slot list" where
  "find_slots L uz tzs duration =
     bind (setZone L (now L (Suc (length tzs))) (ZName uz)) (\<lambda>now0.
     for_each (try_day L uz tzs duration now0) days [])"

subsection \<open>The table\<close>

definition table_open :: string where
  \<open>table_open = ''<table style="width:100%;border-collapse:collapse;background:#fff;color:#333;">''\<close>

definition your_time_th :: string where
  \<open>your_time_th = ''<tr><th style="padding:8px;border-bottom:1px solid #ccc;">Your Time</th>''\<close>

definition lead_th :: "nat \<times> zone_arg \<Rightarrow> string" where
  \<open>lead_th = (\<lambda>(i, tz). ''<th style="padding:8px;border-bottom:1px solid #ccc;">Lead ''
     @ decimal (i + 1) @ '' ('' @ zone_text tz @ '')</th>'')\<close>

definition table_head :: "zone_arg list \<Rightarrow> string" where
  "table_head tzs = table_open @ your_time_th @ concat (map lead_th (enumerate 0 tzs)) @ ''</tr>''"

definition empty_row :: "nat \<Rightarrow> string" where
  \<open>empty_row n = ''<tr><td colspan="'' @ decimal (1 + n)
     @ ''" style="padding:12px;color:#ff5252;text-align:center;">No overlapping slots found for the next 3 days.</td></tr>''\<close>

definition cell :: "string \<Rightarrow> string" where
  \<open>cell t = ''<td style="padding:8px;border-bottom:1px solid #eee;">'' @ t @ ''</td>''\<close>

definition slot_row :: "slot \<Rightarrow> string" where
  "slot_row s = ''<tr>'' @ cell (user s) @ concat (map cell (leads s)) @ ''</tr>''"

definition slotsTableHtml :: "zone_arg list \<Rightarrow> slot list \<Rightarrow> string" where
  "slotsTableHtml tzs slots =
     table_head tzs
     @ (if length slots = 0 then empty_row (length tzs) else concat (map slot_row slots))
     @ ''</table>''"

text \<open>\<open>slots.length > 0 ? slots[0].link : ''\<close>\<close>

definition meetingLink :: "slot list \<Rightarrow> string" where
  "meetingLink slots = (case slots of [] \<Rightarrow> [] | s # _ \<Rightarrow> link s)"

subsection \<open>The handler\<close>

definition invalid_tz_html :: string where
  \<open>invalid_tz_html = ''<div style="color:#ff5252;">Invalid timezone(s) provided.</div>''\<close>

definition server_error_html :: string where
  \<open>server_error_html = ''<div style="color:#ff5252;">Server error: Unable to find meeting slots.</div>''\<close>

text \<open>The \<open>try\<close> block: the response it sends, or the exception that leaves it.\<close>

definition handler_try :: "'dt env \<Rightarrow> request \<Rightarrow> fault + response" where
  "handler_try L req =
     (if field_missing (userTimezone req) then Inr (Status400 ''Please provide your timezone.'')
      else if field_missing (leadLocations req) then Inr (Status400 ''Please provide lead locations.'')
      else
        (let duration = duration_of (callDuration req);
             uz = toString (userTimezone req);
             tzs = resolvedTzs (toString (leadLocations req))
         in if \<not> validTzs L (ZName uz # tzs) then Inr (Json200 invalid_tz_html [])
            else bind (find_slots L uz tzs duration) (\<lambda>slots.
                 Inr (Json200 (slotsTableHtml tzs slots) (meetingLink slots)))))"

text \<open>The handler with its \<open>catch\<close>.\<close>

definition handler :: "'dt env \<Rightarrow> request \<Rightarrow> response" where
  "handler L req =
     (case handler_try L req of
        Inl _ \<Rightarrow> Json200 server_error_html []
      | Inr r \<Rightarrow> r)"

subsection \<open>The handler with the hour counter as a double\<close>

text \<open>
  In \<open>candidate_hours\<close> the counter of the hour loop is an integer, so that loop has an end
  for every bound. In the source the counter is a double and the bound comes from the
  request: \<open>handler_run\<close> is the handler with the counter as it is, and its answer is \<open>None\<close>
  when the handler never answers. The two handlers agree when the bound of the hour loop is
  below \<open>2^53\<close> (\<open>handler_run_agrees\<close> below).
\<close>

text \<open>
  \<open>hour++\<close> on the double \<open>hour\<close>: one more below \<open>2^53\<close>; at \<open>2^53\<close> the sum \<open>2^53 + 1\<close> is
  not a double and rounds back to \<open>2^53\<close>.
\<close>

definition js_inc :: "int \<Rightarrow> int" where
  "js_inc h = (if h < 2 ^ 53 then h + 1 else h)"

text \<open>
  \<open>for (let hour = h; hour <= hi; hour++) body\<close> with that counter: the state after the loop,
  the exception that left it, or \<open>None\<close> when the loop never ends.
\<close>

partial_function (option) counted_loop ::
  "('s \<Rightarrow> int \<Rightarrow> fault + 's) \<Rightarrow> int \<Rightarrow> int \<Rightarrow> 's \<Rightarrow> (fault + 's) option" where
  "counted_loop body h hi s =
     (if h \<le> hi
      then (case body s h of
              Inl e \<Rightarrow> Some (Inl e)
            | Inr s' \<Rightarrow> counted_loop body (js_inc h) hi s')
      else Some (Inr s))"

text \<open>The loop over the days, the search and the handler around this hour loop.\<close>

fun for_each_run ::
  "('s \<Rightarrow> 'a \<Rightarrow> (fault + 's) option) \<Rightarrow> 'a list \<Rightarrow> 's \<Rightarrow> (fault + 's) option" where
  "for_each_run body [] s = Some (Inr s)"
| "for_each_run body (x # xs) s =
     (case body s x of
        None \<Rightarrow> None
      | Some (Inl e) \<Rightarrow> Some (Inl e)
      | Some (Inr s') \<Rightarrow> for_each_run body xs s')"

definition try_day_run ::
  "'dt env \<Rightarrow> string \<Rightarrow> zone_arg list \<Rightarrow> int \<Rightarrow> 'dt \<Rightarrow> slot list \<Rightarrow> int
     \<Rightarrow> (fault + slot list) option" where
  "try_day_run L uz tzs duration now0 slots day =
     (case plusDays L now0 day of
        Inl e \<Rightarrow> Some (Inl e)
      | Inr date \<Rightarrow>
          counted_loop (try_hour L uz tzs duration date) 9 (17 - ceil60 duration) slots)"

definition find_slots_run ::
  "'dt env \<Rightarrow> string \<Rightarrow> zone_arg list \<Rightarrow> int \<Rightarrow> (fault + slot list) option" where
  "find_slots_run L uz tzs duration =
     (case setZone L (now L (Suc (length tzs))) (ZName uz) of
        Inl e \<Rightarrow> Some (Inl e)
      | Inr now0 \<Rightarrow> for_each_run (try_day_run L uz tzs duration now0) days [])"

definition handler_run :: "'dt env \<Rightarrow> request \<Rightarrow> response option" where
  "handler_run L req =
     (if field_missing (userTimezone req) then Some (Status400 ''Please provide your timezone.'')
      else if field_missing (leadLocations req) then Some (Status400 ''Please provide lead locations.'')
      else
        (let duration = duration_of (callDuration req);
             uz = toString (userTimezone req);
             tzs = resolvedTzs (toString (leadLocations req))
         in if \<not> validTzs L (ZName uz # tzs) then Some (Json200 invalid_tz_html [])
            else (case find_slots_run L uz tzs duration of
                    None \<Rightarrow> None
                  | Some (Inl e) \<Rightarrow> Some (Json200 server_error_html [])
                  | Some (Inr slots) \<Rightarrow>
                      Some (Json200 (slotsTableHtml tzs slots) (meetingLink slots)))))"

subsection \<open>Reading the local hour\<close>

text \<open>
  The hour that \<open>dt\<close> shows in the zone \<open>tz\<close>: \<open>dt.setZone(tz).hour\<close>, with \<open>None\<close> when the
  projection throws or the hour is \<open>NaN\<close>.
\<close>

definition local_hour :: "'dt env \<Rightarrow> 'dt \<Rightarrow> zone_arg \<Rightarrow> int option" where
  "local_hour L dt tz = (case setZone L dt tz of Inl _ \<Rightarrow> None | Inr p \<Rightarrow> hour L p)"

text \<open>
  The candidate of day offset \<open>day\<close> and hour \<open>h\<close>: its start and its end, when the library
  calls that build them return.
\<close>

definition candidate :: "'dt env \<Rightarrow> string \<Rightarrow> nat \<Rightarrow> int \<Rightarrow> int \<times> int \<Rightarrow> ('dt \<times> 'dt) option" where
  "candidate L uz n duration = (\<lambda>(day, h).
     (case setZone L (now L (Suc n)) (ZName uz) of
        Inl _ \<Rightarrow> None
      | Inr now0 \<Rightarrow>
          (case plusDays L now0 day of
             Inl _ \<Rightarrow> None
           | Inr date \<Rightarrow>
               (case setHour L date h of
                  Inl _ \<Rightarrow> None
                | Inr start \<Rightarrow>
                    (case plusMinutes L start duration of
                       Inl _ \<Rightarrow> None
                     | Inr finish \<Rightarrow> Some (start, finish))))))"

text \<open>The order of the loops on the pairs of a day offset and an hour.\<close>

definition before :: "int \<times> int \<Rightarrow> int \<times> int \<Rightarrow> bool" where
  "before a b = (fst a < fst b \<or> (fst a = fst b \<and> snd a < snd b))"

definition accepted :: "'dt env \<Rightarrow> string \<Rightarrow> zone_arg list \<Rightarrow> int \<Rightarrow> int \<times> int \<Rightarrow> bool" where
  "accepted L uz tzs duration dh =
     (case candidate L uz (length tzs) duration dh of
        None \<Rightarrow> False
      | Some (start, finish) \<Rightarrow> allOk L tzs start finish)"

definition slot_of :: "'dt env \<Rightarrow> string \<Rightarrow> zone_arg list \<Rightarrow> int \<Rightarrow> int \<times> int \<Rightarrow> slot \<Rightarrow> bool" where
  "slot_of L uz tzs duration dh s =
     (case candidate L uz (length tzs) duration dh of
        None \<Rightarrow> False
      | Some (start, finish) \<Rightarrow> make_slot L uz tzs duration start = Inr s)"

text \<open>A library none of whose methods throws.\<close>

definition never_throws :: "'dt env \<Rightarrow> bool" where
  "never_throws L =
     ((\<forall>dt tz. \<exists>p. setZone L dt tz = Inr p)
      \<and> (\<forall>dt n. \<exists>p. plusDays L dt n = Inr p)
      \<and> (\<forall>dt n. \<exists>p. plusMinutes L dt n = Inr p)
      \<and> (\<forall>dt h. \<exists>p. setHour L dt h = Inr p)
      \<and> (\<forall>dt. \<exists>f. toFormat L dt = Inr f)
      \<and> (\<forall>dt. \<exists>f. toISO L dt = Inr f)
      \<and> (\<forall>s. \<exists>e. encodeURIComponent L s = Inr e))"

subsection \<open>A stand-in for the library\<close>

text \<open>
  A small clock with which the definitions can be run: an instant is a number of minutes,
  a zone is a fixed offset in minutes taken from a short table, and any other zone is
  invalid. It stands in for luxon in the examples below and is not a model of it.
\<close>

datatype zoned = Zoned int "int option"

definition fixed_offsets :: "(string \<times> int) list" where
  "fixed_offsets =
    [(''UTC'', 0), (''Europe/London'', 0), (''Europe/Berlin'', 60),
     (''Asia/Kolkata'', 330), (''Asia/Tokyo'', 540), (''America/New_York'', - 300)]"

definition two_digits :: "int \<Rightarrow> string" where
  "two_digits n = (if n < 10 then CHR ''0'' # show_int n else show_int n)"

definition clock_format :: "zoned \<Rightarrow> string" where
  "clock_format z =
     (case z of
        Zoned t None \<Rightarrow> ''Invalid DateTime''
      | Zoned t (Some off) \<Rightarrow>
          ''day '' @ show_int ((t + off) div 1440) @ '' ''
          @ two_digits ((t + off) div 60 mod 24) @ '':'' @ two_digits ((t + off) mod 60))"

definition clock_setZone :: "zoned \<Rightarrow> zone_arg \<Rightarrow> zoned" where
  "clock_setZone z tz =
     (case z of Zoned t _ \<Rightarrow>
        Zoned t (case tz of ZName n \<Rightarrow> map_of fixed_offsets n | ZInherited _ \<Rightarrow> None))"

definition clock_plus :: "zoned \<Rightarrow> int \<Rightarrow> zoned" where
  "clock_plus z m = (case z of Zoned t off \<Rightarrow> Zoned (t + m) off)"

definition clock_setHour :: "zoned \<Rightarrow> int \<Rightarrow> zoned" where
  "clock_setHour z h =
     (case z of
        Zoned t None \<Rightarrow> z
      | Zoned t (Some off) \<Rightarrow> Zoned ((t + off) div 1440 * 1440 + 60 * h - off) (Some off))"

definition clock_hour :: "zoned \<Rightarrow> int option" where
  "clock_hour z =
     (case z of Zoned t None \<Rightarrow> None | Zoned t (Some off) \<Rightarrow> Some ((t + off) div 60 mod 24))"

definition percent :: "string \<Rightarrow> string" where
  "percent s = concat (map (\<lambda>c. if c = CHR ''/'' then ''%2F'' else [c]) s)"

definition clock :: "int \<Rightarrow> zoned env" where
  "clock t0 =
     \<lparr>now = (\<lambda>k. Zoned t0 (Some 0)),
      setZone = (\<lambda>z tz. Inr (clock_setZone z tz)),
      isValid = (\<lambda>z. case z of Zoned t off \<Rightarrow> off \<noteq> None),
      plusDays = (\<lambda>z n. Inr (clock_plus z (1440 * n))),
      plusMinutes = (\<lambda>z n. Inr (clock_plus z n)),
      setHour = (\<lambda>z h. Inr (clock_setHour z h)),
      hour = clock_hour,
      toFormat = (\<lambda>z. Inr (clock_format z)),
      toISO = (\<lambda>z. case z of Zoned t off \<Rightarrow> Inr (show_int t)),
      encodeURIComponent = (\<lambda>s. Inr (percent s))\<rparr>"

text \<open>The same clock with a \<open>toFormat\<close> that throws.\<close>

definition broken_clock :: "int \<Rightarrow> zoned env" where
  "broken_clock t0 = (clock t0)\<lparr>toFormat := (\<lambda>z. Inl (Thrown ''format failed''))\<rparr>"

text \<open>What the clock finds for London and Berlin and a meeting of seven hours.\<close>

definition london_berlin_slots :: "slot list" where
  "london_berlin_slots =
    [\<lparr>user = ''day 0 09:00 (Europe/London)'', leads = [''day 0 10:00 (Europe/Berlin)''],
       link = ''https://cal.com/book?tz=Europe%2FLondon&start=540&duration=420''\<rparr>,
     \<lparr>user = ''day 1 09:00 (Europe/London)'', leads = [''day 1 10:00 (Europe/Berlin)''],
       link = ''https://cal.com/book?tz=Europe%2FLondon&start=1980&duration=420''\<rparr>,
     \<lparr>user = ''day 2 09:00 (Europe/London)'', leads = [''day 2 10:00 (Europe/Berlin)''],
       link = ''https://cal.com/book?tz=Europe%2FLondon&start=3420&duration=420''\<rparr>]"

section \<open>Properties of the definitions\<close>

subsection \<open>The string built-ins\<close>

text \<open>
  \<open>split_comma\<close> cuts at the commas and nowhere else; \<open>trim\<close> removes white space from the
  two ends and nothing else.
\<close>

lemma split_comma_not_Nil: "split_comma s \<noteq> []"
  by (induction s) (auto split: list.splits)

lemma split_comma_join: "join_comma (split_comma s) = s"
proof (induction s)
  case Nil
  then show ?case by simp
next
  case (Cons c cs)
  obtain p ps where sp: "split_comma cs = p # ps"
    using split_comma_not_Nil [of cs] by (cases "split_comma cs") auto
  show ?case
  proof (cases "c = CHR '',''")
    case True
    with Cons sp show ?thesis by simp
  next
    case False
    with Cons sp show ?thesis by (cases ps) auto
  qed
qed

lemma split_comma_no_comma: "p \<in> set (split_comma s) \<Longrightarrow> CHR '','' \<notin> set p"
proof (induction s arbitrary: p)
  case Nil
  then show ?case by simp
next
  case (Cons c cs)
  then show ?case
    by (auto split: if_splits list.splits)
qed

lemma dropWhile_all_iff: "(\<forall>x \<in> set (dropWhile P xs). P x) \<longleftrightarrow> dropWhile P xs = []"
proof
  assume a: "\<forall>x \<in> set (dropWhile P xs). P x"
  show "dropWhile P xs = []"
  proof (rule ccontr)
    assume ne: "dropWhile P xs \<noteq> []"
    then have "\<not> P (hd (dropWhile P xs))" by (rule hd_dropWhile)
    moreover from ne have "hd (dropWhile P xs) \<in> set (dropWhile P xs)" by simp
    ultimately show False using a by blast
  qed
next
  assume "dropWhile P xs = []"
  then show "\<forall>x \<in> set (dropWhile P xs). P x" by (auto dest: set_dropWhileD)
qed

lemma trim_empty_iff: "trim s = [] \<longleftrightarrow> (\<forall>c \<in> set s. is_space c)"
proof -
  have "trim s = [] \<longleftrightarrow> (\<forall>x \<in> set (dropWhile is_space s). is_space x)"
    by (simp add: trim_def dropWhile_eq_Nil_conv)
  also have "\<dots> \<longleftrightarrow> dropWhile is_space s = []"
    by (rule dropWhile_all_iff)
  also have "\<dots> \<longleftrightarrow> (\<forall>c \<in> set s. is_space c)"
    by (simp add: dropWhile_eq_Nil_conv)
  finally show ?thesis .
qed

lemma trim_sandwich:
  "\<exists>a b. s = a @ trim s @ b \<and> (\<forall>c \<in> set a. is_space c) \<and> (\<forall>c \<in> set b. is_space c)"
proof -
  let ?a = "takeWhile is_space s" and ?r = "dropWhile is_space s"
  let ?b = "rev (takeWhile is_space (rev ?r))"
  have "rev ?r = takeWhile is_space (rev ?r) @ dropWhile is_space (rev ?r)"
    by simp
  then have "?r = trim s @ ?b"
    unfolding trim_def by (metis rev_append rev_rev_ident)
  then have "s = ?a @ trim s @ ?b"
    by (metis takeWhile_dropWhile_id)
  moreover have "\<forall>c \<in> set ?a. is_space c"
    by (auto dest: set_takeWhileD)
  moreover have "\<forall>c \<in> set ?b. is_space c"
    by (auto dest: set_takeWhileD)
  ultimately show ?thesis by blast
qed

lemma trim_ends:
  assumes "trim s \<noteq> []"
  shows "\<not> is_space (hd (trim s))" and "\<not> is_space (last (trim s))"
proof -
  let ?r = "dropWhile is_space s"
  from assms have ne: "dropWhile is_space (rev ?r) \<noteq> []"
    by (simp add: trim_def)
  then have "\<not> is_space (hd (dropWhile is_space (rev ?r)))"
    by (rule hd_dropWhile)
  with ne show "\<not> is_space (last (trim s))"
    by (simp add: trim_def last_rev)
  from ne have rne: "?r \<noteq> []" by (cases "?r") simp_all
  then have h: "\<not> is_space (hd ?r)" by (rule hd_dropWhile)
  obtain b where "?r = trim s @ b"
    unfolding trim_def
    by (metis rev_append rev_rev_ident takeWhile_dropWhile_id)
  with assms have "hd ?r = hd (trim s)" by (metis hd_append2)
  with h show "\<not> is_space (hd (trim s))" by simp
qed

subsection \<open>Resolving a token\<close>

text \<open>
  Every key of the table is in lower case, so a token that is a key in any casing resolves to
  the zone of the key; a non-empty token whose lower-case form is neither a key nor an
  inherited member resolves to itself.
\<close>

lemma keys_lower_case: "list_all (\<lambda>(k, z). toLowerCase k = k) cityToTz"
  by code_simp

lemma recognized_city_any_casing:
  assumes "map_of cityToTz k = Some z" and "toLowerCase t = k"
  shows "resolveTz t = ZName z \<and> resolveTz k = ZName z"
proof -
  from assms(1) have "(k, z) \<in> set cityToTz"
    by (rule map_of_SomeD)
  with keys_lower_case have "toLowerCase k = k"
    by (auto simp: list_all_iff)
  with assms show ?thesis
    by (simp add: resolveTz_def cityToTz_get_def)
qed

lemma unknown_token_verbatim:
  assumes "map_of cityToTz (toLowerCase t) = None" and "toLowerCase t \<notin> set inherited_keys"
    and "t \<noteq> []"
  shows "resolveTz t = ZName t"
  using assms by (simp add: resolveTz_def cityToTz_get_def)

lemma lead_tokens_not_empty: "t \<in> set (lead_tokens s) \<Longrightarrow> t \<noteq> []"
  by (simp add: lead_tokens_def)

subsection \<open>The checks and the duration\<close>

lemma field_missing_iff: "field_missing v \<longleftrightarrow> (\<forall>s. v = JStr s \<longrightarrow> trim s = [])"
  by (cases v) (auto simp: field_missing_def trim_def)

lemma validTzs_iff: "validTzs L zs \<longleftrightarrow> (\<forall>k < length zs. zone_valid L k (zs ! k))"
proof -
  have "validTzs L zs \<longleftrightarrow> (\<forall>p \<in> set (enumerate 0 zs). zone_valid L (fst p) (snd p))"
    by (simp add: validTzs_def list_all_iff case_prod_beta)
  also have "\<dots> \<longleftrightarrow> (\<forall>k < length zs. zone_valid L k (zs ! k))"
  proof
    assume a: "\<forall>p \<in> set (enumerate 0 zs). zone_valid L (fst p) (snd p)"
    show "\<forall>k < length zs. zone_valid L k (zs ! k)"
    proof (intro allI impI)
      fix k assume "k < length zs"
      then have "(k, zs ! k) \<in> set (enumerate 0 zs)"
        by (simp add: in_set_enumerate_eq)
      with a show "zone_valid L k (zs ! k)" by fastforce
    qed
  next
    assume "\<forall>k < length zs. zone_valid L k (zs ! k)"
    then show "\<forall>p \<in> set (enumerate 0 zs). zone_valid L (fst p) (snd p)"
      by (auto simp: in_set_enumerate_eq)
  qed
  finally show ?thesis .
qed


lemma parseInt_30: "parseInt (JNum 30) = Some 30"
  by code_simp

lemma duration_of_30: "duration_of (JNum 30) = 30"
  by (simp add: duration_of_def parseInt_30)

text \<open>The handler reads \<open>callDuration\<close> only through \<open>duration_of\<close>.\<close>

lemma handler_duration:
  "duration_of (callDuration r1) = duration_of (callDuration r2) \<Longrightarrow>
   userTimezone r1 = userTimezone r2 \<Longrightarrow> leadLocations r1 = leadLocations r2 \<Longrightarrow>
   handler L r1 = handler L r2"
  by (simp add: handler_def handler_try_def)

subsection \<open>The loop bounds\<close>

lemma hours_from_upto: "hours_from h hi = [h..hi]"
proof (induction h hi rule: hours_from.induct)
  case (1 h hi)
  show ?case
  proof (cases "h \<le> hi")
    case True
    have "hours_from h hi = h # hours_from (h + 1) hi"
      using True by (subst hours_from.simps) simp
    also have "\<dots> = h # [h + 1..hi]"
      using 1 True by simp
    also have "\<dots> = [h..hi]"
      using True by (simp add: upto_rec1)
    finally show ?thesis .
  next
    case False
    then show ?thesis by (subst hours_from.simps) simp
  qed
qed

text \<open>\<open>ceil60\<close> is \<open>Math.ceil(duration/60)\<close>, the division taken in the reals.\<close>

lemma ceil60_ceiling: "ceil60 d = \<lceil>real_of_int d / 60\<rceil>"
proof -
  have "\<lfloor>real_of_int (- d) / real_of_int 60\<rfloor> = (- d) div 60"
    by (rule floor_divide_of_int_eq)
  then show ?thesis
    by (simp add: ceil60_def ceiling_def)
qed

lemma candidate_hours_upto: "candidate_hours d = [9..17 - ceil60 d]"
  by (simp add: candidate_hours_def hours_from_upto)

lemma ceil60_gt8: "(8 < ceil60 d) = (480 < d)"
  unfolding ceil60_def by arith

lemma candidate_hours_empty: "(candidate_hours d = []) = (480 < d)"
  unfolding candidate_hours_upto using ceil60_gt8[of d] by auto

lemma candidate_hours_window:
  assumes "h \<in> set (candidate_hours d)"
  shows "9 * 60 \<le> 60 * h" and "60 * h + d \<le> 17 * 60"
proof -
  from assms have h: "9 \<le> h" "h \<le> 17 - ceil60 d"
    by (simp_all add: candidate_hours_upto)
  from h(1) show "9 * 60 \<le> 60 * h" by simp
  have "d \<le> 60 * ceil60 d"
    unfolding ceil60_def by arith
  with h(2) show "60 * h + d \<le> 17 * 60" by simp
qed

subsection \<open>Exceptions and loops\<close>

lemma bind_Inr_iff: "(bind m f = Inr y) = (\<exists>x. m = Inr x \<and> f x = Inr y)"
  by (cases m) (simp_all add: bind_def)

lemma traverse_Inr: "traverse f xs = Inr ys \<Longrightarrow> list_all2 (\<lambda>x y. f x = Inr y) xs ys"
proof (induction xs arbitrary: ys)
  case Nil
  then show ?case by simp
next
  case (Cons x xs)
  from Cons.prems obtain y ys' where "f x = Inr y" "traverse f xs = Inr ys'" "ys = y # ys'"
    by (auto simp: bind_Inr_iff)
  with Cons.IH show ?case by simp
qed

lemma for_each_filter:
  assumes step: "\<And>s x s'. x \<in> set xs \<Longrightarrow> body s x = Inr s' \<Longrightarrow>
      (P x \<and> (\<exists>y. R x y \<and> s' = s @ [y])) \<or> (\<not> P x \<and> s' = s)"
    and run: "for_each body xs s = Inr r"
  shows "\<exists>ys. r = s @ ys \<and> list_all2 R (filter P xs) ys"
  using assms
proof (induction xs arbitrary: s)
  case Nil
  then show ?case by simp
next
  case (Cons x xs)
  from Cons.prems(2) obtain s1 where b: "body s x = Inr s1" and rest: "for_each body xs s1 = Inr r"
    by (auto simp: bind_Inr_iff)
  have "\<exists>ys. r = s1 @ ys \<and> list_all2 R (filter P xs) ys"
    by (rule Cons.IH [OF _ rest]) (rule Cons.prems(1), simp_all)
  then obtain ys where ys: "r = s1 @ ys" "list_all2 R (filter P xs) ys"
    by blast
  from Cons.prems(1) [OF _ b]
  have "(P x \<and> (\<exists>y. R x y \<and> s1 = s @ [y])) \<or> (\<not> P x \<and> s1 = s)"
    by simp
  with ys show ?case by auto
qed

lemma for_each_concat:
  assumes step: "\<And>s x s'. x \<in> set xs \<Longrightarrow> body s x = Inr s' \<Longrightarrow> \<exists>ys. s' = s @ ys \<and> Q x ys"
    and run: "for_each body xs s = Inr r"
  shows "\<exists>yss. r = s @ concat yss \<and> list_all2 Q xs yss"
  using assms
proof (induction xs arbitrary: s)
  case Nil
  then show ?case by simp
next
  case (Cons x xs)
  from Cons.prems(2) obtain s1 where b: "body s x = Inr s1" and rest: "for_each body xs s1 = Inr r"
    by (auto simp: bind_Inr_iff)
  have "\<exists>yss. r = s1 @ concat yss \<and> list_all2 Q xs yss"
    by (rule Cons.IH [OF _ rest]) (rule Cons.prems(1), simp_all)
  then obtain yss where yss: "r = s1 @ concat yss" "list_all2 Q xs yss"
    by blast
  from Cons.prems(1) [OF _ b] obtain ys where ys: "s1 = s @ ys" "Q x ys"
    by auto
  have "r = s @ concat (ys # yss) \<and> list_all2 Q (x # xs) (ys # yss)"
    using ys yss by simp
  then show ?case by blast
qed

lemma list_all2_product_concat:
  "list_all2 (\<lambda>x ys. list_all2 (\<lambda>h y. R (x, h) y) (filter (\<lambda>h. P (x, h)) hs) ys) xs yss \<Longrightarrow>
   list_all2 R (filter P (List.product xs hs)) (concat yss)"
proof (induction xs arbitrary: yss)
  case Nil
  then show ?case by simp
next
  case (Cons x xs)
  from Cons.prems obtain ys yss' where y: "yss = ys # yss'"
    "list_all2 (\<lambda>h y. R (x, h) y) (filter (\<lambda>h. P (x, h)) hs) ys"
    "list_all2 (\<lambda>x ys. list_all2 (\<lambda>h y. R (x, h) y) (filter (\<lambda>h. P (x, h)) hs) ys) xs yss'"
    by (auto simp: list_all2_Cons1)
  have "list_all2 R (filter P (map (Pair x) hs)) ys"
    using y(2) by (simp add: filter_map o_def list_all2_map1)
  moreover have "list_all2 R (filter P (List.product xs hs)) (concat yss')"
    by (rule Cons.IH [OF y(3)])
  ultimately show ?case
    using y(1) by (simp add: list_all2_appendI)
qed

lemma list_all2_member:
  "list_all2 R xs ys \<Longrightarrow> y \<in> set ys \<Longrightarrow> \<exists>x \<in> set xs. R x y"
proof (induction rule: list_all2_induct)
  case Nil
  then show ?case by simp
next
  case (Cons x xs z zs)
  then show ?case by auto
qed

lemma list_all2_hd:
  "list_all2 R xs ys \<Longrightarrow> ys \<noteq> [] \<Longrightarrow> xs \<noteq> [] \<and> R (hd xs) (hd ys)"
  by (cases xs; cases ys) auto

lemma sorted_wrt_hd: "sorted_wrt R xs \<Longrightarrow> x \<in> set xs \<Longrightarrow> x = hd xs \<or> R (hd xs) x"
  by (cases xs) auto

lemma traverse_returns:
  "(\<And>x. \<exists>y. f x = Inr y) \<Longrightarrow> \<exists>ys. traverse f xs = Inr ys"
proof (induction xs)
  case Nil
  then show ?case by simp
next
  case (Cons x xs)
  from Cons.prems obtain y where "f x = Inr y" by blast
  moreover from Cons obtain ys where "traverse f xs = Inr ys" by blast
  ultimately show ?case by (simp add: bind_def)
qed

lemma for_each_returns:
  "(\<And>s x. \<exists>s'. body s x = Inr s') \<Longrightarrow> \<exists>r. for_each body xs s = Inr r"
proof (induction xs arbitrary: s)
  case Nil
  then show ?case by simp
next
  case (Cons x xs)
  from Cons.prems obtain s1 where "body s x = Inr s1" by blast
  moreover from Cons obtain r where "for_each body xs s1 = Inr r" by blast
  ultimately show ?case by (simp add: bind_def)
qed

subsection \<open>What a search that returns has found\<close>

text \<open>
  When \<open>find_slots\<close> returns, its slots are those of the accepted candidates, in the order
  of the loops: day by day, and hour by hour within a day.
\<close>

lemma candidate_Some:
  "candidate L uz n d (day, h) = Some (start, finish) \<longleftrightarrow>
   (\<exists>now0 date. setZone L (now L (Suc n)) (ZName uz) = Inr now0
      \<and> plusDays L now0 day = Inr date \<and> setHour L date h = Inr start
      \<and> plusMinutes L start d = Inr finish)"
  by (auto simp: candidate_def split: sum.splits)

lemma make_slot_Inr:
  assumes "make_slot L uz tzs d start = Inr s"
  shows "\<exists>f e1 iso e2.
      toFormat L start = Inr f \<and> user s = f @ '' ('' @ uz @ '')''
      \<and> list_all2 (\<lambda>tz y. lead_label L start tz = Inr y) tzs (leads s)
      \<and> encodeURIComponent L uz = Inr e1 \<and> toISO L start = Inr iso
      \<and> encodeURIComponent L iso = Inr e2
      \<and> link s = ''https://cal.com/book?tz='' @ e1 @ ''&start='' @ e2 @ ''&duration='' @ show_int d"
proof -
  from assms obtain f ls e1 iso e2 where
    parts: "toFormat L start = Inr f" "traverse (lead_label L start) tzs = Inr ls"
      "encodeURIComponent L uz = Inr e1" "toISO L start = Inr iso" "encodeURIComponent L iso = Inr e2"
    and s: "s = \<lparr>user = f @ '' ('' @ uz @ '')'', leads = ls,
        link = ''https://cal.com/book?tz='' @ e1 @ ''&start='' @ e2 @ ''&duration='' @ show_int d\<rparr>"
    unfolding make_slot_def bind_Inr_iff by auto
  from traverse_Inr [OF parts(2)] parts s show ?thesis
    by auto
qed

lemma lead_label_Inr:
  "lead_label L start tz = Inr y \<Longrightarrow>
   \<exists>p g. setZone L start tz = Inr p \<and> toFormat L p = Inr g \<and> y = g @ '' ('' @ zone_text tz @ '')''"
  unfolding lead_label_def bind_Inr_iff by auto

lemma try_hour_Inr:
  assumes n0: "setZone L (now L (Suc (length tzs))) (ZName uz) = Inr now0"
    and dt: "plusDays L now0 day = Inr date"
    and run: "try_hour L uz tzs d date slots h = Inr slots'"
  shows "(accepted L uz tzs d (day, h) \<and> (\<exists>y. slot_of L uz tzs d (day, h) y \<and> slots' = slots @ [y]))
       \<or> (\<not> accepted L uz tzs d (day, h) \<and> slots' = slots)"
proof -
  from run obtain start finish where
    st: "setHour L date h = Inr start" and fi: "plusMinutes L start d = Inr finish"
    and r: "(if allOk L tzs start finish
             then bind (make_slot L uz tzs d start) (\<lambda>s. Inr (slots @ [s]))
             else Inr slots) = Inr slots'"
    by (auto simp: try_hour_def bind_Inr_iff)
  have c: "candidate L uz (length tzs) d (day, h) = Some (start, finish)"
    by (simp add: candidate_def n0 dt st fi)
  show ?thesis
  proof (cases "allOk L tzs start finish")
    case True
    with r obtain y where "make_slot L uz tzs d start = Inr y" "slots' = slots @ [y]"
      by (auto simp: bind_Inr_iff)
    with True c show ?thesis by (simp add: accepted_def slot_of_def)
  next
    case False
    with r c show ?thesis by (simp add: accepted_def)
  qed
qed

lemma try_day_Inr:
  assumes n0: "setZone L (now L (Suc (length tzs))) (ZName uz) = Inr now0"
    and run: "try_day L uz tzs d now0 slots day = Inr slots'"
  shows "\<exists>ys. slots' = slots @ ys
     \<and> list_all2 (\<lambda>h y. slot_of L uz tzs d (day, h) y)
         (filter (\<lambda>h. accepted L uz tzs d (day, h)) (candidate_hours d)) ys"
proof -
  from run obtain date where dt: "plusDays L now0 day = Inr date"
    and r: "for_each (try_hour L uz tzs d date) (candidate_hours d) slots = Inr slots'"
    by (auto simp: try_day_def bind_Inr_iff)
  show ?thesis
    by (rule for_each_filter [OF _ r]) (rule try_hour_Inr [OF n0 dt])
qed

lemma find_slots_Inr:
  assumes run: "find_slots L uz tzs d = Inr slots"
  shows "list_all2 (slot_of L uz tzs d)
           (filter (accepted L uz tzs d) (List.product days (candidate_hours d))) slots"
proof -
  from run obtain now0 where n0: "setZone L (now L (Suc (length tzs))) (ZName uz) = Inr now0"
    and r: "for_each (try_day L uz tzs d now0) days [] = Inr slots"
    by (auto simp: find_slots_def bind_Inr_iff)
  have "\<exists>yss. slots = [] @ concat yss
      \<and> list_all2 (\<lambda>day ys. list_all2 (\<lambda>h y. slot_of L uz tzs d (day, h) y)
           (filter (\<lambda>h. accepted L uz tzs d (day, h)) (candidate_hours d)) ys) days yss"
    by (rule for_each_concat [OF _ r]) (rule try_day_Inr [OF n0])
  then obtain yss where "slots = concat yss"
    "list_all2 (\<lambda>day ys. list_all2 (\<lambda>h y. slot_of L uz tzs d (day, h) y)
           (filter (\<lambda>h. accepted L uz tzs d (day, h)) (candidate_hours d)) ys) days yss"
    by auto
  then show ?thesis
    using list_all2_product_concat [of "slot_of L uz tzs d" "accepted L uz tzs d" "candidate_hours d" days yss]
    by simp
qed

text \<open>The loops visit the candidates in increasing order, so the first slot is the earliest.\<close>

lemma loop_order: "sorted_wrt before (List.product days (candidate_hours d))"
proof -
  have hs: "sorted_wrt (\<lambda>h k. before (x, h) (x, k)) (candidate_hours d)" for x
    by (simp add: before_def candidate_hours_upto)
  have "sorted_wrt before (map (Pair x) (candidate_hours d))" for x
    using hs [of x] by (simp add: sorted_wrt_map)
  then show ?thesis
    by (auto simp: days_def sorted_wrt_append before_def)
qed

lemma first_accepted_is_earliest:
  assumes "dh \<in> set (filter P (List.product days (candidate_hours d)))"
  shows "dh = hd (filter P (List.product days (candidate_hours d)))
       \<or> before (hd (filter P (List.product days (candidate_hours d)))) dh"
proof -
  have "sorted_wrt before (filter P (List.product days (candidate_hours d)))"
    by (rule sorted_wrt_filter) (rule loop_order)
  from sorted_wrt_hd [OF this assms] show ?thesis .
qed

text \<open>The search returns when no call of the library throws.\<close>

lemma make_slot_returns:
  assumes "never_throws L"
  shows "\<exists>s. make_slot L uz tzs d start = Inr s"
proof -
  from assms obtain f where f: "toFormat L start = Inr f"
    unfolding never_throws_def by blast
  have "\<exists>y. lead_label L start tz = Inr y" for tz
  proof -
    from assms obtain p where p: "setZone L start tz = Inr p"
      unfolding never_throws_def by blast
    from assms obtain g where "toFormat L p = Inr g"
      unfolding never_throws_def by blast
    with p show ?thesis by (simp add: lead_label_def bind_def)
  qed
  then obtain ls where ls: "traverse (lead_label L start) tzs = Inr ls"
    using traverse_returns [of "lead_label L start" tzs] by blast
  from assms obtain e1 where e1: "encodeURIComponent L uz = Inr e1"
    unfolding never_throws_def by blast
  from assms obtain iso where iso: "toISO L start = Inr iso"
    unfolding never_throws_def by blast
  from assms obtain e2 where e2: "encodeURIComponent L iso = Inr e2"
    unfolding never_throws_def by blast
  from f ls e1 iso e2 show ?thesis
    by (simp add: make_slot_def bind_def)
qed

lemma try_hour_returns:
  assumes "never_throws L"
  shows "\<exists>slots'. try_hour L uz tzs d date slots h = Inr slots'"
proof -
  from assms obtain start where s: "setHour L date h = Inr start"
    unfolding never_throws_def by blast
  from assms obtain finish where f: "plusMinutes L start d = Inr finish"
    unfolding never_throws_def by blast
  from make_slot_returns [OF assms] obtain y where "make_slot L uz tzs d start = Inr y"
    by blast
  with s f show ?thesis
    by (simp add: try_hour_def bind_def)
qed

lemma find_slots_returns:
  assumes "never_throws L"
  shows "\<exists>slots. find_slots L uz tzs d = Inr slots"
proof -
  from assms obtain now0 where n: "setZone L (now L (Suc (length tzs))) (ZName uz) = Inr now0"
    unfolding never_throws_def by blast
  have day: "\<exists>s'. try_day L uz tzs d now0 s day = Inr s'" for s day
  proof -
    from assms obtain date where dt: "plusDays L now0 day = Inr date"
      unfolding never_throws_def by blast
    from for_each_returns [of "try_hour L uz tzs d date" "candidate_hours d" s]
      try_hour_returns [OF assms]
    obtain r where "for_each (try_hour L uz tzs d date) (candidate_hours d) s = Inr r"
      by blast
    with dt show ?thesis by (simp add: try_day_def bind_def)
  qed
  from for_each_returns [of "try_day L uz tzs d now0" days "[]"] day
  obtain r where "for_each (try_day L uz tzs d now0) days [] = Inr r"
    by blast
  with n show ?thesis by (simp add: find_slots_def bind_def)
qed

subsection \<open>The stand-in clock\<close>

text \<open>
  The clock never throws. Its candidate of day offset \<open>day\<close> and hour \<open>h\<close> starts \<open>60 * h\<close>
  minutes into the organizer's day, \<open>day\<close> days after today, and ends \<open>duration\<close> minutes
  later.
\<close>

lemma clock_never_throws: "never_throws (clock t0)"
  by (auto simp: never_throws_def clock_def split: zoned.splits)

lemma clock_candidate_window:
  assumes z: "map_of fixed_offsets uz = Some off"
    and c: "candidate (clock t0) uz n d (day, h) = Some (start, finish)"
    and h: "0 \<le> h" "h < 24"
  shows "\<exists>t. start = Zoned t (Some off) \<and> finish = Zoned (t + d) (Some off)
       \<and> (t + off) mod 1440 = 60 * h
       \<and> (t + off) div 1440 = (t0 + off) div 1440 + day"
proof -
  let ?t = "(t0 + 1440 * day + off) div 1440 * 1440 + 60 * h - off"
  from c z have "start = Zoned ?t (Some off)" "finish = Zoned (?t + d) (Some off)"
    by (auto simp: candidate_Some clock_def clock_setZone_def clock_plus_def clock_setHour_def)
  moreover have "(?t + off) mod 1440 = 60 * h"
    using h by simp
  moreover have "(?t + off) div 1440 = (t0 + off) div 1440 + day"
  proof -
    have "(?t + off) div 1440 = (t0 + 1440 * day + off) div 1440"
      using h by simp
    also have "\<dots> = (t0 + off) div 1440 + day"
      by simp
    finally show ?thesis .
  qed
  ultimately show ?thesis by blast
qed

lemma london_berlin_run:
  "find_slots (clock 0) ''Europe/London'' [ZName ''Europe/Berlin''] 420 = Inr london_berlin_slots"
  by code_simp

subsection \<open>Decimal numerals\<close>

text \<open>\<open>decimal n\<close> is a run of digits whose value is \<open>n\<close>.\<close>

lemma of_char_digit_char: "n < 10 \<Longrightarrow> (of_char (digit_char n) :: nat) = 48 + n"
  by (simp add: digit_char_def)

lemma decimal_value: "digits_value (decimal n) = int n"
proof (induction n rule: decimal.induct)
  case (1 n)
  show ?case
  proof (cases "n < 10")
    case True
    then show ?thesis
      by (subst decimal.simps) (simp add: digits_value_def of_char_digit_char)
  next
    case False
    with 1 have ih: "digits_value (decimal (n div 10)) = int (n div 10)"
      by simp
    have "digits_value (decimal n)
        = 10 * digits_value (decimal (n div 10)) + int (n mod 10)"
      using False
      by (subst decimal.simps) (simp add: digits_value_def of_char_digit_char)
    with ih show ?thesis
      by (simp add: zdiv_int zmod_int)
  qed
qed

lemma decimal_digits: "list_all is_digit (decimal n)"
proof (induction n rule: decimal.induct)
  case (1 n)
  have d: "is_digit (digit_char k)" if "k < 10" for k
    using that by (simp add: is_digit_def of_char_digit_char)
  show ?case
  proof (cases "n < 10")
    case True
    then show ?thesis
      by (subst decimal.simps) (simp add: d)
  next
    case False
    with 1 show ?thesis
      by (subst decimal.simps) (simp add: d)
  qed
qed

subsection \<open>The candidates of every duration\<close>

text \<open>
  For every duration the candidate hours of each day are the integers from \<open>9\<close> to
  \<open>17 - \<lceil>duration/60\<rceil>\<close>, and every slot of a search that returns comes from one of the
  three day offsets and one of these hours, its start built by \<open>setHour\<close> (hour \<open>h\<close>, minute,
  second and millisecond \<open>0\<close>) and its end by adding the duration. When the duration is at
  least one minute, the window of a candidate hour \<open>h\<close>, counted in minutes of the organizer's
  day, starts at or after 09:00 and ends at or before 17:00.
\<close>

lemma candidate_hours_range:
  "candidate_hours d = [9..17 - ceil60 d]
   \<and> ceil60 d = \<lceil>real_of_int d / 60\<rceil>
   \<and> (find_slots L uz tzs d = Inr slots \<longrightarrow>
        (\<forall>s \<in> set slots. \<exists>day h now0 date start finish.
           day \<in> {0, 1, 2} \<and> 9 \<le> h \<and> h \<le> 17 - ceil60 d
           \<and> setZone L (now L (Suc (length tzs))) (ZName uz) = Inr now0
           \<and> plusDays L now0 day = Inr date \<and> setHour L date h = Inr start
           \<and> plusMinutes L start d = Inr finish
           \<and> allOk L tzs start finish \<and> make_slot L uz tzs d start = Inr s))
   \<and> (1 \<le> d \<longrightarrow>
        (\<forall>h \<in> set (candidate_hours d).
           9 * 60 \<le> 60 * h \<and> 60 * h < 60 * h + d \<and> 60 * h + d \<le> 17 * 60))"
proof -
  have found: "\<exists>day h now0 date start finish.
           day \<in> {0, 1, 2} \<and> 9 \<le> h \<and> h \<le> 17 - ceil60 d
           \<and> setZone L (now L (Suc (length tzs))) (ZName uz) = Inr now0
           \<and> plusDays L now0 day = Inr date \<and> setHour L date h = Inr start
           \<and> plusMinutes L start d = Inr finish
           \<and> allOk L tzs start finish \<and> make_slot L uz tzs d start = Inr s"
    if run: "find_slots L uz tzs d = Inr slots" and mem: "s \<in> set slots" for s
  proof -
    from list_all2_member [OF find_slots_Inr [OF run] mem]
    obtain day h where dh: "(day, h) \<in> set (List.product days (candidate_hours d))"
      "accepted L uz tzs d (day, h)" "slot_of L uz tzs d (day, h) s"
      by auto
    from dh(1) have day: "day \<in> {0, 1, 2}" and h: "9 \<le> h" "h \<le> 17 - ceil60 d"
      by (auto simp: days_def candidate_hours_upto)
    from dh(3) obtain start finish where
      c: "candidate L uz (length tzs) d (day, h) = Some (start, finish)"
      and mk: "make_slot L uz tzs d start = Inr s"
      by (auto simp: slot_of_def split: option.splits)
    from dh(2) c have ok: "allOk L tzs start finish"
      by (simp add: accepted_def)
    from c obtain now0 date where "setZone L (now L (Suc (length tzs))) (ZName uz) = Inr now0"
      "plusDays L now0 day = Inr date" "setHour L date h = Inr start"
      "plusMinutes L start d = Inr finish"
      unfolding candidate_Some by blast
    with day h ok mk show ?thesis by blast
  qed
  have window: "9 * 60 \<le> 60 * h \<and> 60 * h < 60 * h + d \<and> 60 * h + d \<le> 17 * 60"
    if "1 \<le> d" "h \<in> set (candidate_hours d)" for h
    using that candidate_hours_window [of h d] by simp
  from candidate_hours_upto [of d] ceil60_ceiling [of d] found window
  show ?thesis by blast
qed

subsection \<open>The two handlers\<close>

text \<open>
  Past the two checks \<open>handler\<close> answers with \<open>res.json\<close>, and with the fixed server-error
  message when an exception leaves the \<open>try\<close> block.
\<close>

lemma every_path_responds:
  "\<not> field_missing (userTimezone req) \<Longrightarrow> \<not> field_missing (leadLocations req) \<Longrightarrow>
   (\<exists>html link. handler L req = Json200 html link)
   \<and> (\<forall>e. handler_try L req = Inl e \<longrightarrow> handler L req = Json200 server_error_html [])"
proof -
  assume ok: "\<not> field_missing (userTimezone req)" "\<not> field_missing (leadLocations req)"
  have caught: "handler L req = Json200 server_error_html []" if "handler_try L req = Inl e" for e
    using that by (simp add: handler_def)
  have sent: "\<exists>html link. handler L req = Json200 html link"
  proof (cases "handler_try L req")
    case (Inl e)
    then show ?thesis using caught by blast
  next
    case (Inr r)
    with ok have "\<exists>html link. r = Json200 html link"
      by (auto simp: handler_try_def Let_def bind_Inr_iff split: if_splits)
    with Inr show ?thesis by (auto simp: handler_def)
  qed
  from sent caught show ?thesis by blast
qed

text \<open>
  With a bound below \<open>2^53\<close> the hour loop of the source visits the hours of \<open>hours_from\<close>
  and the two handlers agree; with a bound of \<open>2^53\<close> or more and a body that does not throw,
  the loop never ends.
\<close>

lemma counted_loop_agrees:
  "hi < 2 ^ 53 \<Longrightarrow> counted_loop body h hi s = Some (for_each body (hours_from h hi) s)"
proof (induction h hi arbitrary: s rule: hours_from.induct)
  case (1 h hi)
  show ?case
  proof (cases "h \<le> hi")
    case True
    with 1(2) have inc: "js_inc h = h + 1"
      by (simp add: js_inc_def)
    have hs: "hours_from h hi = h # hours_from (h + 1) hi"
      using True by (subst hours_from.simps) simp
    show ?thesis
    proof (cases "body s h")
      case (Inl e)
      with True hs show ?thesis
        by (subst counted_loop.simps) (simp add: bind_def)
    next
      case (Inr s')
      from 1(1) [OF True 1(2), of s']
      have "counted_loop body (h + 1) hi s' = Some (for_each body (hours_from (h + 1) hi) s')" .
      with True hs Inr inc show ?thesis
        by (subst counted_loop.simps) (simp add: bind_def)
    qed
  next
    case False
    then have "hours_from h hi = []"
      by (subst hours_from.simps) simp
    with False show ?thesis
      by (subst counted_loop.simps) simp
  qed
qed

lemma counted_loop_Some_ends:
  assumes run: "counted_loop body h hi s = Some y"
  shows "2 ^ 53 \<le> hi \<longrightarrow> (\<forall>s h. \<exists>s'. body s h = Inr s') \<longrightarrow> 2 ^ 53 < h"
proof (rule counted_loop.raw_induct
    [where P = "\<lambda>body h hi s y. 2 ^ 53 \<le> hi \<longrightarrow> (\<forall>s h. \<exists>s'. body s h = Inr s') \<longrightarrow> 2 ^ 53 < h",
     OF _ run])
  fix loop :: "('a \<Rightarrow> int \<Rightarrow> fault + 'a) \<Rightarrow> int \<Rightarrow> int \<Rightarrow> 'a \<Rightarrow> (fault + 'a) option"
    and body h hi s y
  assume IH: "\<And>body h hi s y. loop body h hi s = Some y \<Longrightarrow>
      2 ^ 53 \<le> hi \<longrightarrow> (\<forall>s h. \<exists>s'. body s h = Inr s') \<longrightarrow> 2 ^ 53 < h"
    and step: "(if h \<le> hi
      then case body s h of Inl e \<Rightarrow> Some (Inl e) | Inr s' \<Rightarrow> loop body (js_inc h) hi s'
      else Some (Inr s)) = Some y"
  show "2 ^ 53 \<le> hi \<longrightarrow> (\<forall>s h. \<exists>s'. body s h = Inr s') \<longrightarrow> 2 ^ 53 < h"
  proof (intro impI)
    assume big: "2 ^ 53 \<le> hi" and total: "\<forall>s h. \<exists>s'. body s h = Inr s'"
    show "2 ^ 53 < h"
    proof (rule ccontr)
      assume "\<not> 2 ^ 53 < h"
      then have small: "h \<le> 2 ^ 53" by simp
      with big have le: "h \<le> hi" by simp
      from total obtain s' where b: "body s h = Inr s'" by blast
      from step le b have "loop body (js_inc h) hi s' = Some y" by simp
      from IH [OF this] big total have "2 ^ 53 < js_inc h" by blast
      with small show False by (simp add: js_inc_def split: if_splits)
    qed
  qed
qed

lemma counted_loop_never_ends:
  assumes "2 ^ 53 \<le> hi" and "\<forall>s h. \<exists>s'. body s h = Inr s'" and "h \<le> 2 ^ 53"
  shows "counted_loop body h hi s = None"
proof (cases "counted_loop body h hi s")
  case None
  then show ?thesis .
next
  case (Some y)
  from counted_loop_Some_ends [OF Some] assms show ?thesis by simp
qed

lemma for_each_run_agrees:
  "(\<And>s x. body' s x = Some (body s x)) \<Longrightarrow> for_each_run body' xs s = Some (for_each body xs s)"
proof (induction xs arbitrary: s)
  case Nil
  then show ?case by simp
next
  case (Cons x xs)
  then show ?case
    by (cases "body s x") (simp_all add: bind_def)
qed

lemma try_day_run_agrees:
  "17 - ceil60 d < 2 ^ 53 \<Longrightarrow>
   try_day_run L uz tzs d now0 slots day = Some (try_day L uz tzs d now0 slots day)"
  by (cases "plusDays L now0 day")
    (simp_all add: try_day_run_def try_day_def bind_def candidate_hours_def counted_loop_agrees)

lemma find_slots_run_agrees:
  assumes "17 - ceil60 d < 2 ^ 53"
  shows "find_slots_run L uz tzs d = Some (find_slots L uz tzs d)"
proof (cases "setZone L (now L (Suc (length tzs))) (ZName uz)")
  case (Inl e)
  then show ?thesis
    by (simp add: find_slots_run_def find_slots_def bind_def)
next
  case (Inr now0)
  have "for_each_run (try_day_run L uz tzs d now0) days []
      = Some (for_each (try_day L uz tzs d now0) days [])"
    by (rule for_each_run_agrees) (rule try_day_run_agrees [OF assms])
  with Inr show ?thesis
    by (simp add: find_slots_run_def find_slots_def bind_def)
qed

lemma handler_run_agrees:
  assumes "17 - ceil60 (duration_of (callDuration req)) < 2 ^ 53"
  shows "handler_run L req = Some (handler L req)"
proof -
  let ?uz = "toString (userTimezone req)" and ?tzs = "resolvedTzs (toString (leadLocations req))"
  have run: "find_slots_run L ?uz ?tzs (duration_of (callDuration req))
      = Some (find_slots L ?uz ?tzs (duration_of (callDuration req)))"
    by (rule find_slots_run_agrees [OF assms])
  show ?thesis
    by (cases "find_slots L ?uz ?tzs (duration_of (callDuration req))")
      (simp_all add: handler_run_def handler_def handler_try_def Let_def bind_def run)
qed

lemma find_slots_run_never_ends:
  assumes quiet: "never_throws L" and big: "2 ^ 53 \<le> 17 - ceil60 d"
  shows "find_slots_run L uz tzs d = None"
proof -
  from quiet obtain now0 where n: "setZone L (now L (Suc (length tzs))) (ZName uz) = Inr now0"
    unfolding never_throws_def by blast
  from quiet obtain date where dt: "plusDays L now0 0 = Inr date"
    unfolding never_throws_def by blast
  have "\<forall>s h. \<exists>s'. try_hour L uz tzs d date s h = Inr s'"
    using try_hour_returns [OF quiet] by blast
  with big have "counted_loop (try_hour L uz tzs d date) 9 (17 - ceil60 d) [] = None"
    by (intro counted_loop_never_ends) simp_all
  with dt have "try_day_run L uz tzs d now0 [] 0 = None"
    by (simp add: try_day_run_def)
  with n show ?thesis
    by (simp add: find_slots_run_def days_def)
qed

lemma handler_run_never_answers:
  assumes "\<not> field_missing (userTimezone req)" and "\<not> field_missing (leadLocations req)"
    and "validTzs L (ZName (toString (userTimezone req)) # resolvedTzs (toString (leadLocations req)))"
    and "never_throws L" and "2 ^ 53 \<le> 17 - ceil60 (duration_of (callDuration req))"
  shows "handler_run L req = None"
  using assms find_slots_run_never_ends [OF assms(4,5)]
  by (simp add: handler_run_def)

lemma handler_run_answers:
  assumes "17 - ceil60 (duration_of (callDuration req)) < 2 ^ 53"
    and "\<not> field_missing (userTimezone req)" and "\<not> field_missing (leadLocations req)"
  shows "(\<exists>html link. handler_run L req = Some (Json200 html link))
     \<and> (\<forall>e. handler_try L req = Inl e \<longrightarrow> handler_run L req = Some (Json200 server_error_html []))"
  using handler_run_agrees [OF assms(1), of L] every_path_responds [OF assms(2,3), of L]
  by auto

section \<open>The claims\<close>

text \<open>
  Claim C1. A candidate passes for a participant exactly when the hour of its start in the
  participant's zone is at least \<open>9\<close> and the hour of its end there is at most \<open>17\<close>; only
  the hours are compared. It is accepted exactly when it passes for every participant, and
  the slots of a search that returns are those of the accepted candidates. In the example
  the end at 17:30 passes and the end at 18:00 does not.
\<close>

theorem slot_acceptance_rule:
  "(lead_ok L start finish tz \<longleftrightarrow>
      (\<exists>hs he. local_hour L start tz = Some hs \<and> local_hour L finish tz = Some he
         \<and> 9 \<le> hs \<and> he \<le> 17))
   \<and> (allOk L tzs start finish \<longleftrightarrow> (\<forall>tz \<in> set tzs. lead_ok L start finish tz))
   \<and> (find_slots L uz tzs d = Inr slots \<longrightarrow>
        list_all2 (slot_of L uz tzs d)
          (filter (accepted L uz tzs d) (List.product days (candidate_hours d))) slots)"
proof -
  have one: "lead_ok L start finish tz \<longleftrightarrow>
      (\<exists>hs he. local_hour L start tz = Some hs \<and> local_hour L finish tz = Some he
         \<and> 9 \<le> hs \<and> he \<le> 17)"
    by (auto simp: lead_ok_def local_hour_def hour_ge_def hour_le_def
        split: sum.splits option.splits)
  have every: "allOk L tzs start finish \<longleftrightarrow> (\<forall>tz \<in> set tzs. lead_ok L start finish tz)"
    by (simp add: allOk_def list_all_iff)
  show ?thesis
    using one every find_slots_Inr [of L uz tzs d slots] by blast
qed

theorem slot_acceptance_rule_witness:
  "local_hour (clock 0) (Zoned 960 (Some 0)) (ZName ''Europe/Berlin'') = Some 17
   \<and> local_hour (clock 0) (Zoned 990 (Some 0)) (ZName ''Europe/Berlin'') = Some 17
   \<and> clock_format (clock_setZone (Zoned 990 (Some 0)) (ZName ''Europe/Berlin'')) = ''day 0 17:30''
   \<and> lead_ok (clock 0) (Zoned 960 (Some 0)) (Zoned 990 (Some 0)) (ZName ''Europe/Berlin'')
   \<and> clock_format (clock_setZone (Zoned 1020 (Some 0)) (ZName ''Europe/Berlin'')) = ''day 0 18:00''
   \<and> \<not> lead_ok (clock 0) (Zoned 960 (Some 0)) (Zoned 1020 (Some 0)) (ZName ''Europe/Berlin'')"
proof -
  let ?L = "clock 0" and ?tz = "ZName ''Europe/Berlin''"
  have a: "local_hour ?L (Zoned 960 (Some 0)) ?tz = Some 17"
    by code_simp
  have b: "local_hour ?L (Zoned 990 (Some 0)) ?tz = Some 17"
    by code_simp
  have c: "local_hour ?L (Zoned 1020 (Some 0)) ?tz = Some 18"
    by code_simp
  have f1: "clock_format (clock_setZone (Zoned 990 (Some 0)) ?tz) = ''day 0 17:30''"
    by code_simp
  have f2: "clock_format (clock_setZone (Zoned 1020 (Some 0)) ?tz) = ''day 0 18:00''"
    by code_simp
  from slot_acceptance_rule [where L = ?L and start = "Zoned 960 (Some 0)"
      and finish = "Zoned 990 (Some 0)" and tz = ?tz] a b
  have ok: "lead_ok ?L (Zoned 960 (Some 0)) (Zoned 990 (Some 0)) ?tz"
    by simp
  from slot_acceptance_rule [where L = ?L and start = "Zoned 960 (Some 0)"
      and finish = "Zoned 1020 (Some 0)" and tz = ?tz] a c
  have no: "\<not> lead_ok ?L (Zoned 960 (Some 0)) (Zoned 1020 (Some 0)) ?tz"
    by simp
  from a b f1 ok f2 no show ?thesis by simp
qed

text \<open>
  Claim C2. A field is rejected exactly when it is not a string or is a string that trims
  to the empty one (an absent field is \<open>undefined\<close>). A rejected \<open>userTimezone\<close>, and then a
  rejected \<open>leadLocations\<close>, is answered with status 400 and a message, whatever the
  library does. When both pass and some zone of \<open>[userTimezone, ...resolvedTzs]\<close> fails
  its validation, the answer is the \<open>res.json\<close> payload with the invalid-timezone message
  and an empty link, and nothing is searched.
\<close>

theorem request_errors_and_invalid_zones:
  "(field_missing v \<longleftrightarrow> (\<forall>s. v = JStr s \<longrightarrow> trim s = []))
   \<and> (field_missing (userTimezone req) \<longrightarrow>
        handler L req = Status400 ''Please provide your timezone.'')
   \<and> (\<not> field_missing (userTimezone req) \<and> field_missing (leadLocations req) \<longrightarrow>
        handler L req = Status400 ''Please provide lead locations.'')
   \<and> (\<not> field_missing (userTimezone req) \<and> \<not> field_missing (leadLocations req)
        \<and> zs = ZName (toString (userTimezone req)) # resolvedTzs (toString (leadLocations req))
        \<and> (\<exists>k < length zs. \<not> zone_valid L k (zs ! k)) \<longrightarrow>
        handler L req = Json200 invalid_tz_html [])"
proof -
  have tz: "handler L req = Status400 ''Please provide your timezone.''"
    if "field_missing (userTimezone req)"
    using that by (simp add: handler_def handler_try_def)
  have ll: "handler L req = Status400 ''Please provide lead locations.''"
    if "\<not> field_missing (userTimezone req)" "field_missing (leadLocations req)"
    using that by (simp add: handler_def handler_try_def)
  have bad: "handler L req = Json200 invalid_tz_html []"
    if "\<not> field_missing (userTimezone req)" "\<not> field_missing (leadLocations req)"
      "zs = ZName (toString (userTimezone req)) # resolvedTzs (toString (leadLocations req))"
      "\<exists>k < length zs. \<not> zone_valid L k (zs ! k)"
  proof -
    from that(4) have "\<not> validTzs L zs"
      by (simp add: validTzs_iff)
    with that(1-3) show ?thesis
      by (simp add: handler_def handler_try_def)
  qed
  show ?thesis
    using field_missing_iff [of v] tz ll bad by blast
qed

theorem request_errors_and_invalid_zones_witness:
  "field_missing JUndefined \<and> field_missing (JNum 5) \<and> field_missing (JStr ''  '')
   \<and> \<not> field_missing (JStr ''UTC'')
   \<and> handler (clock 0) \<lparr>userTimezone = JNum 5, leadLocations = JStr ''london'', callDuration = JUndefined\<rparr>
       = Status400 ''Please provide your timezone.''
   \<and> handler (clock 0) \<lparr>userTimezone = JStr ''UTC'', leadLocations = JStr ''  '', callDuration = JUndefined\<rparr>
       = Status400 ''Please provide lead locations.''
   \<and> \<not> zone_valid (clock 0) 2 (ZName ''Nowhere City'')
   \<and> handler (clock 0) \<lparr>userTimezone = JStr ''UTC'', leadLocations = JStr ''london, Nowhere City'', callDuration = JUndefined\<rparr>
       = Json200 invalid_tz_html []"
proof -
  let ?L = "clock 0"
  let ?r1 = "\<lparr>userTimezone = JNum 5, leadLocations = JStr ''london'', callDuration = JUndefined\<rparr>"
  let ?r2 = "\<lparr>userTimezone = JStr ''UTC'', leadLocations = JStr ''  '', callDuration = JUndefined\<rparr>"
  let ?r3 = "\<lparr>userTimezone = JStr ''UTC'', leadLocations = JStr ''london, Nowhere City'', callDuration = JUndefined\<rparr>"
  let ?zs = "[ZName ''UTC'', ZName ''Europe/London'', ZName ''Nowhere City'']"
  have m0: "field_missing JUndefined" and m1: "field_missing (JNum 5)"
    by (simp_all add: field_missing_def)
  have m2: "field_missing (JStr ''  '')"
    by code_simp
  have m3: "\<not> field_missing (JStr ''UTC'')"
    by code_simp
  have m4: "\<not> field_missing (JStr ''london, Nowhere City'')"
    by code_simp
  have zs: "?zs = ZName (toString (userTimezone ?r3)) # resolvedTzs (toString (leadLocations ?r3))"
    by code_simp
  have inv: "\<not> zone_valid ?L 2 (ZName ''Nowhere City'')"
    by code_simp
  then have ex: "\<exists>k < length ?zs. \<not> zone_valid ?L k (?zs ! k)"
    by (intro exI [of _ 2]) simp
  from request_errors_and_invalid_zones [where req = ?r1 and L = ?L] m1
  have a: "handler ?L ?r1 = Status400 ''Please provide your timezone.''"
    by simp
  from request_errors_and_invalid_zones [where req = ?r2 and L = ?L] m2 m3
  have b: "handler ?L ?r2 = Status400 ''Please provide lead locations.''"
    by simp
  from request_errors_and_invalid_zones [where req = ?r3 and L = ?L and zs = ?zs] m3 m4 zs ex
  have c: "handler ?L ?r3 = Json200 invalid_tz_html []"
    by simp
  from m0 m1 m2 m3 a b inv c show ?thesis by blast
qed

text \<open>
  Claim C3, as stated, fails: a duration of \<open>8 * 60\<close> minutes has one candidate hour, \<open>9\<close>
  (the window from 09:00 to 17:00), and the stand-in clock accepts it for a participant in
  the organizer's zone.
\<close>

theorem full_day_has_a_candidate:
  "duration_of (JNum 480) = 8 * 60
   \<and> candidate_hours (8 * 60) = [9]
   \<and> accepted (clock 0) ''UTC'' [ZName ''UTC''] (8 * 60) (0, 9)"
  by code_simp

text \<open>
  Claim C3, amended. A duration of exactly \<open>480\<close> minutes has the single candidate hour \<open>9\<close>;
  the list of candidate hours is empty exactly when the duration is above \<open>480\<close>, and then
  a search that returns has no slot, the table is the header followed by the row that
  says so, and the link is empty.
\<close>

theorem candidate_hours_long_duration:
  "candidate_hours 480 = [9]
   \<and> (candidate_hours d = []) = (480 < d)
   \<and> (480 < d \<longrightarrow> find_slots L uz tzs d = Inr slots \<longrightarrow>
        slots = []
        \<and> slotsTableHtml tzs slots = table_head tzs @ empty_row (length tzs) @ ''</table>''
        \<and> meetingLink slots = [])"
proof -
  have one: "candidate_hours 480 = [9]"
    by (simp add: candidate_hours_upto ceil60_def)
  have none: "slots = []" if long: "480 < d" and run: "find_slots L uz tzs d = Inr slots"
  proof -
    from long have "candidate_hours d = []"
      by (simp add: candidate_hours_empty)
    with find_slots_Inr [OF run] show ?thesis
      by (simp add: days_def)
  qed
  show ?thesis
    using one none by (auto simp: candidate_hours_empty slotsTableHtml_def meetingLink_def)
qed

theorem candidate_hours_long_duration_witness:
  "(480::int) < 481 \<and> find_slots (clock 0) ''UTC'' [ZName ''UTC''] 481 = Inr []
   \<and> candidate_hours 481 = []"
proof -
  have run: "find_slots (clock 0) ''UTC'' [ZName ''UTC''] 481 = Inr []"
    by code_simp
  from candidate_hours_long_duration [where d = 481 and L = "clock 0" and uz = "''UTC''"
      and tzs = "[ZName ''UTC'']" and slots = "[]"] run
  show ?thesis by simp
qed

text \<open>
  Claim C4. The candidate hours are the integers from \<open>9\<close> to \<open>17 - \<lceil>duration/60\<rceil>\<close>
  (\<open>candidate_hours_range\<close>), but the last part of the claim fails: the organizer's window
  does not always lie inside 09:00 to 17:00. A \<open>callDuration\<close> of \<open>-60\<close> is kept as the
  duration, the candidate hours then run to \<open>18\<close>, and the stand-in clock accepts, for a
  participant in the organizer's zone, the candidate that starts at 18:00 and ends at 17:00.
\<close>

theorem negative_duration_leaves_the_day:
  "duration_of (JStr ''-60'') = - 60
   \<and> candidate_hours (- 60) = [9, 10, 11, 12, 13, 14, 15, 16, 17, 18]
   \<and> candidate (clock 0) ''UTC'' 1 (- 60) (0, 18) = Some (Zoned 1080 (Some 0), Zoned 1020 (Some 0))
   \<and> clock_format (Zoned 1080 (Some 0)) = ''day 0 18:00''
   \<and> clock_format (Zoned 1020 (Some 0)) = ''day 0 17:00''
   \<and> accepted (clock 0) ''UTC'' [ZName ''UTC''] (- 60) (0, 18)"
  by code_simp



text \<open>
  Claim C6. The tokens are the trimmed, non-empty pieces between the commas, in their order
  (\<open>lead_tokens\<close>), and a token that is a key of the table in any casing resolves to the zone
  of the key (\<open>recognized_city_any_casing\<close>). The claim fails for a token whose lower-case
  form names a member that the table inherits: \<open>Constructor\<close> is not a key of the table, and
  it is resolved to the function \<open>Object\<close>, not to the token. With the stand-in clock the
  request is then answered with the invalid-timezone payload.
\<close>

theorem inherited_member_is_not_verbatim:
  "map_of cityToTz (toLowerCase ''Constructor'') = None
   \<and> lead_tokens ''london, Constructor'' = [''london'', ''Constructor'']
   \<and> resolvedTzs ''london, Constructor'' = [ZName ''Europe/London'', ZInherited ''constructor'']
   \<and> resolveTz ''Constructor'' \<noteq> ZName ''Constructor''
   \<and> handler (clock 0) \<lparr>userTimezone = JStr ''UTC'', leadLocations = JStr ''london, Constructor'',
        callDuration = JUndefined\<rparr> = Json200 invalid_tz_html []"
  by code_simp

text \<open>
  Claim C7. In every slot of a search that returns, \<open>leads\<close> has one entry for each resolved
  participant, in their order, and the entry of a participant is the start of that slot,
  the one \<open>user\<close> is formatted from, projected into the participant's zone and formatted
  in the same way, followed by the zone in brackets.
\<close>

theorem lead_times_are_projections:
  "find_slots L uz tzs d = Inr slots \<Longrightarrow> s \<in> set slots \<Longrightarrow>
   length (leads s) = length tzs
   \<and> (\<exists>dh start finish f.
         dh \<in> set (List.product days (candidate_hours d))
         \<and> accepted L uz tzs d dh
         \<and> candidate L uz (length tzs) d dh = Some (start, finish)
         \<and> toFormat L start = Inr f \<and> user s = f @ '' ('' @ uz @ '')''
         \<and> (\<forall>i < length tzs. \<exists>p g.
               setZone L start (tzs ! i) = Inr p \<and> toFormat L p = Inr g
               \<and> leads s ! i = g @ '' ('' @ zone_text (tzs ! i) @ '')''))"
proof -
  assume run: "find_slots L uz tzs d = Inr slots" and mem: "s \<in> set slots"
  from list_all2_member [OF find_slots_Inr [OF run] mem]
  obtain dh where dh: "dh \<in> set (List.product days (candidate_hours d))"
    "accepted L uz tzs d dh" "slot_of L uz tzs d dh s"
    by auto
  from dh(3) obtain start finish where c: "candidate L uz (length tzs) d dh = Some (start, finish)"
    and mk: "make_slot L uz tzs d start = Inr s"
    by (auto simp: slot_of_def split: option.splits)
  from make_slot_Inr [OF mk] obtain f where f: "toFormat L start = Inr f"
    "user s = f @ '' ('' @ uz @ '')''"
    and ls: "list_all2 (\<lambda>tz y. lead_label L start tz = Inr y) tzs (leads s)"
    by blast
  from ls have len: "length (leads s) = length tzs"
    by (simp add: list_all2_lengthD)
  have each: "\<exists>p g. setZone L start (tzs ! i) = Inr p \<and> toFormat L p = Inr g
      \<and> leads s ! i = g @ '' ('' @ zone_text (tzs ! i) @ '')''" if "i < length tzs" for i
  proof -
    from ls that have "lead_label L start (tzs ! i) = Inr (leads s ! i)"
      by (simp add: list_all2_conv_all_nth)
    then show ?thesis by (rule lead_label_Inr)
  qed
  from len dh(1,2) c f each show ?thesis by blast
qed

theorem lead_times_are_projections_witness:
  "find_slots (clock 0) ''Europe/London'' [ZName ''Europe/Berlin''] 420 = Inr london_berlin_slots
   \<and> london_berlin_slots ! 1 \<in> set london_berlin_slots
   \<and> length (leads (london_berlin_slots ! 1)) = length [ZName ''Europe/Berlin'']
   \<and> leads (london_berlin_slots ! 1) = [''day 1 10:00 (Europe/Berlin)'']
   \<and> clock_format (clock_setZone (Zoned 1980 (Some 0)) (ZName ''Europe/Berlin'')) = ''day 1 10:00''"
proof -
  have mem: "london_berlin_slots ! 1 \<in> set london_berlin_slots"
    by (simp add: london_berlin_slots_def)
  have l: "leads (london_berlin_slots ! 1) = [''day 1 10:00 (Europe/Berlin)'']"
    by (simp add: london_berlin_slots_def)
  have f: "clock_format (clock_setZone (Zoned 1980 (Some 0)) (ZName ''Europe/Berlin'')) = ''day 1 10:00''"
    by code_simp
  from lead_times_are_projections [OF london_berlin_run mem]
  have "length (leads (london_berlin_slots ! 1)) = length [ZName ''Europe/Berlin'']"
    by blast
  with london_berlin_run mem l f show ?thesis by blast
qed

text \<open>
  Claim C8. A request that passes the checks and the validation, and whose search returns,
  is answered with \<open>res.json\<close>, not with an error status. With no slot the table is its
  header, one cell for the organizer and one for each resolved participant, and the single
  row that says that no overlapping slot was found, whose \<open>colspan\<close> is the decimal numeral
  of one more than the number of resolved participants; the link is empty. With a slot the link is the one of the first slot:
  the template filled with the encoded organizer zone, the encoded ISO text of the start of
  the first accepted candidate, and the duration. The first accepted candidate comes before
  every other accepted one in the order of day offset and hour.
\<close>

theorem first_slot_link_or_empty_row:
  \<open>\<not> field_missing (userTimezone req) \<Longrightarrow> \<not> field_missing (leadLocations req) \<Longrightarrow>
   uz = toString (userTimezone req) \<Longrightarrow> tzs = resolvedTzs (toString (leadLocations req)) \<Longrightarrow>
   d = duration_of (callDuration req) \<Longrightarrow> validTzs L (ZName uz # tzs) \<Longrightarrow>
   find_slots L uz tzs d = Inr slots \<Longrightarrow>
   handler L req = Json200 (slotsTableHtml tzs slots) (meetingLink slots)
   \<and> (slots = [] \<longrightarrow>
         slotsTableHtml tzs slots =
           ''<table style="width:100%;border-collapse:collapse;background:#fff;color:#333;">''
           @ ''<tr><th style="padding:8px;border-bottom:1px solid #ccc;">Your Time</th>''
           @ concat (map (\<lambda>(i, tz).
               ''<th style="padding:8px;border-bottom:1px solid #ccc;">Lead '' @ decimal (i + 1)
               @ '' ('' @ zone_text tz @ '')</th>'') (enumerate 0 tzs))
           @ ''</tr>''
           @ ''<tr><td colspan="'' @ decimal (1 + length tzs)
           @ ''" style="padding:12px;color:#ff5252;text-align:center;">No overlapping slots found for the next 3 days.</td></tr>''
           @ ''</table>''
         \<and> digits_value (decimal (1 + length tzs)) = 1 + int (length tzs)
         \<and> list_all is_digit (decimal (1 + length tzs))
         \<and> length (enumerate 0 tzs) = length tzs
         \<and> meetingLink slots = [])
   \<and> (slots \<noteq> [] \<longrightarrow>
         (\<exists>start finish e1 iso e2.
            candidate L uz (length tzs) d
              (hd (filter (accepted L uz tzs d) (List.product days (candidate_hours d))))
              = Some (start, finish)
            \<and> encodeURIComponent L uz = Inr e1 \<and> toISO L start = Inr iso
            \<and> encodeURIComponent L iso = Inr e2
            \<and> meetingLink slots
                = ''https://cal.com/book?tz='' @ e1 @ ''&start='' @ e2 @ ''&duration='' @ show_int d))
   \<and> (\<forall>dh \<in> set (filter (accepted L uz tzs d) (List.product days (candidate_hours d))).
         dh = hd (filter (accepted L uz tzs d) (List.product days (candidate_hours d)))
         \<or> before (hd (filter (accepted L uz tzs d) (List.product days (candidate_hours d)))) dh)\<close>
proof -
  assume ok: "\<not> field_missing (userTimezone req)" "\<not> field_missing (leadLocations req)"
    and names: "uz = toString (userTimezone req)" "tzs = resolvedTzs (toString (leadLocations req))"
      "d = duration_of (callDuration req)"
    and valid: "validTzs L (ZName uz # tzs)"
    and run: "find_slots L uz tzs d = Inr slots"
  have sent: "handler L req = Json200 (slotsTableHtml tzs slots) (meetingLink slots)"
    using ok names valid run by (simp add: handler_def handler_try_def bind_def)
  have none: \<open>slotsTableHtml tzs [] =
           ''<table style="width:100%;border-collapse:collapse;background:#fff;color:#333;">''
           @ ''<tr><th style="padding:8px;border-bottom:1px solid #ccc;">Your Time</th>''
           @ concat (map (\<lambda>(i, tz).
               ''<th style="padding:8px;border-bottom:1px solid #ccc;">Lead '' @ decimal (i + 1)
               @ '' ('' @ zone_text tz @ '')</th>'') (enumerate 0 tzs))
           @ ''</tr>''
           @ ''<tr><td colspan="'' @ decimal (1 + length tzs)
           @ ''" style="padding:12px;color:#ff5252;text-align:center;">No overlapping slots found for the next 3 days.</td></tr>''
           @ ''</table>''\<close>
    "meetingLink [] = []"
    by (simp_all add: slotsTableHtml_def meetingLink_def table_head_def table_open_def
        your_time_th_def lead_th_def empty_row_def)
  have count: "digits_value (decimal (1 + length tzs)) = 1 + int (length tzs)"
    "list_all is_digit (decimal (1 + length tzs))"
    by (simp_all add: decimal_value decimal_digits)
  have first: "\<exists>start finish e1 iso e2.
      candidate L uz (length tzs) d
        (hd (filter (accepted L uz tzs d) (List.product days (candidate_hours d))))
        = Some (start, finish)
      \<and> encodeURIComponent L uz = Inr e1 \<and> toISO L start = Inr iso
      \<and> encodeURIComponent L iso = Inr e2
      \<and> meetingLink slots
          = ''https://cal.com/book?tz='' @ e1 @ ''&start='' @ e2 @ ''&duration='' @ show_int d"
    if ne: "slots \<noteq> []"
  proof -
    let ?dh = "hd (filter (accepted L uz tzs d) (List.product days (candidate_hours d)))"
    from list_all2_hd [OF find_slots_Inr [OF run] ne]
    have "slot_of L uz tzs d ?dh (hd slots)"
      by simp
    then obtain start finish where c: "candidate L uz (length tzs) d ?dh = Some (start, finish)"
      and mk: "make_slot L uz tzs d start = Inr (hd slots)"
      by (auto simp: slot_of_def split: option.splits)
    from ne have "meetingLink slots = link (hd slots)"
      by (cases slots) (simp_all add: meetingLink_def)
    with make_slot_Inr [OF mk] c show ?thesis
      by auto
  qed
  have earliest: "dh = hd (filter (accepted L uz tzs d) (List.product days (candidate_hours d)))
      \<or> before (hd (filter (accepted L uz tzs d) (List.product days (candidate_hours d)))) dh"
    if "dh \<in> set (filter (accepted L uz tzs d) (List.product days (candidate_hours d)))" for dh
    using that by (rule first_accepted_is_earliest)
  from sent none count first earliest show ?thesis by simp
qed

theorem first_slot_link_or_empty_row_witness:
  \<open>\<not> field_missing (JStr ''Europe/London'') \<and> \<not> field_missing (JStr ''Berlin'')
   \<and> validTzs (clock 0) [ZName ''Europe/London'', ZName ''Europe/Berlin'']
   \<and> handler (clock 0) \<lparr>userTimezone = JStr ''Europe/London'',
        leadLocations = JStr ''Berlin'', callDuration = JStr ''420''\<rparr>
       = Json200 (slotsTableHtml [ZName ''Europe/Berlin''] london_berlin_slots)
           ''https://cal.com/book?tz=Europe%2FLondon&start=540&duration=420''
   \<and> handler (clock 0) \<lparr>userTimezone = JStr ''Europe/London'',
        leadLocations = JStr ''Berlin'', callDuration = JStr ''500''\<rparr>
       = Json200 ''<table style="width:100%;border-collapse:collapse;background:#fff;color:#333;"><tr><th style="padding:8px;border-bottom:1px solid #ccc;">Your Time</th><th style="padding:8px;border-bottom:1px solid #ccc;">Lead 1 (Europe/Berlin)</th></tr><tr><td colspan="2" style="padding:12px;color:#ff5252;text-align:center;">No overlapping slots found for the next 3 days.</td></tr></table>'' []\<close>
proof -
  let ?L = "clock 0"
  let ?r = "\<lparr>userTimezone = JStr ''Europe/London'', leadLocations = JStr ''Berlin'',
    callDuration = JStr ''420''\<rparr>"
  let ?r' = "\<lparr>userTimezone = JStr ''Europe/London'', leadLocations = JStr ''Berlin'',
    callDuration = JStr ''500''\<rparr>"
  have m1: "\<not> field_missing (JStr ''Europe/London'')"
    by code_simp
  have m2: "\<not> field_missing (JStr ''Berlin'')"
    by code_simp
  have tz: "resolvedTzs ''Berlin'' = [ZName ''Europe/Berlin'']"
    by code_simp
  have d: "duration_of (JStr ''420'') = 420" and d': "duration_of (JStr ''500'') = 500"
    by code_simp+
  have v: "validTzs ?L [ZName ''Europe/London'', ZName ''Europe/Berlin'']"
    by code_simp
  have run': "find_slots ?L ''Europe/London'' [ZName ''Europe/Berlin''] 500 = Inr []"
    by code_simp
  have first: "meetingLink london_berlin_slots
      = ''https://cal.com/book?tz=Europe%2FLondon&start=540&duration=420''"
    by (simp add: meetingLink_def london_berlin_slots_def)
  have a: "handler ?L ?r = Json200 (slotsTableHtml [ZName ''Europe/Berlin''] london_berlin_slots)
      ''https://cal.com/book?tz=Europe%2FLondon&start=540&duration=420''"
    using first_slot_link_or_empty_row [where req = ?r and L = ?L and uz = "''Europe/London''"
      and tzs = "[ZName ''Europe/Berlin'']" and d = 420, OF _ _ _ _ _ v london_berlin_run]
      m1 m2 tz d first
    by (simp add: toString_def)
  have lit: \<open>slotsTableHtml [ZName ''Europe/Berlin''] [] = ''<table style="width:100%;border-collapse:collapse;background:#fff;color:#333;"><tr><th style="padding:8px;border-bottom:1px solid #ccc;">Your Time</th><th style="padding:8px;border-bottom:1px solid #ccc;">Lead 1 (Europe/Berlin)</th></tr><tr><td colspan="2" style="padding:12px;color:#ff5252;text-align:center;">No overlapping slots found for the next 3 days.</td></tr></table>''\<close>
    by code_simp
  have b: \<open>handler ?L ?r' = Json200 ''<table style="width:100%;border-collapse:collapse;background:#fff;color:#333;"><tr><th style="padding:8px;border-bottom:1px solid #ccc;">Your Time</th><th style="padding:8px;border-bottom:1px solid #ccc;">Lead 1 (Europe/Berlin)</th></tr><tr><td colspan="2" style="padding:12px;color:#ff5252;text-align:center;">No overlapping slots found for the next 3 days.</td></tr></table>'' []\<close>
    using first_slot_link_or_empty_row [where req = ?r' and L = ?L and uz = "''Europe/London''"
      and tzs = "[ZName ''Europe/Berlin'']" and d = 500 and slots = "[]", OF _ _ _ _ _ v run']
      m1 m2 tz d' lit
    by (simp add: toString_def)
  from m1 m2 v a b show ?thesis
    by simp
qed

text \<open>
  Claim C9. An exception that leaves the \<open>try\<close> block is answered with the fixed server-error
  message, and a handler whose hour loop ends always answers (\<open>handler_run_answers\<close>). The
  claim fails on a path where the loop does not end: the duration is not checked, the digits
  \<open>-999999999999999999999999\<close> give a bound above \<open>2^53\<close> (so does the double next to this
  duration), the counter stops increasing at \<open>2^53\<close>, and with the stand-in clock, which
  never throws, the handler never answers.
\<close>

theorem long_negative_duration_never_answers:
  "duration_of (JStr ''-999999999999999999999999'') = - 999999999999999999999999
   \<and> (2::int) ^ 53 \<le> 17 - ceil60 (- 999999999999999999999999)
   \<and> handler_run (clock 0) \<lparr>userTimezone = JStr ''UTC'', leadLocations = JStr ''london'',
        callDuration = JStr ''-999999999999999999999999''\<rparr> = None"
proof -
  let ?r = "\<lparr>userTimezone = JStr ''UTC'', leadLocations = JStr ''london'',
        callDuration = JStr ''-999999999999999999999999''\<rparr>"
  have d: "duration_of (JStr ''-999999999999999999999999'') = - 999999999999999999999999"
    by code_simp
  have big: "(2::int) ^ 53 \<le> 17 - ceil60 (- 999999999999999999999999)"
    by (simp add: ceil60_def)
  have m1: "\<not> field_missing (userTimezone ?r)" and m2: "\<not> field_missing (leadLocations ?r)"
    by code_simp+
  have v: "validTzs (clock 0) (ZName (toString (userTimezone ?r)) # resolvedTzs (toString (leadLocations ?r)))"
    by code_simp
  have "handler_run (clock 0) ?r = None"
    using d big by (intro handler_run_never_answers [OF m1 m2 v clock_never_throws]) simp
  with d big show ?thesis by simp
qed

text \<open>
  Claim C10. When \<open>callDuration\<close> parses to the number \<open>0\<close>, the duration of the search is
  \<open>30\<close>: \<open>0 || 30\<close> is \<open>30\<close>, and the response is the one of a request that says \<open>30\<close>.
\<close>

theorem zero_duration_is_30:
  "parseInt (callDuration req) = Some 0 \<Longrightarrow>
   duration_of (callDuration req) = 30
   \<and> handler L req = handler L (req\<lparr>callDuration := JNum 30\<rparr>)"
proof -
  assume z: "parseInt (callDuration req) = Some 0"
  then have d: "duration_of (callDuration req) = 30"
    by (simp add: duration_of_def)
  have "handler L req = handler L (req\<lparr>callDuration := JNum 30\<rparr>)"
    by (rule handler_duration) (simp_all add: d duration_of_30)
  with d show ?thesis by simp
qed

theorem zero_duration_is_30_witness:
  "parseInt (callDuration \<lparr>userTimezone = JStr ''UTC'', leadLocations = JStr ''Berlin'',
      callDuration = JStr ''0''\<rparr>) = Some 0
   \<and> duration_of (JStr ''0'') = 30"
proof -
  let ?req = "\<lparr>userTimezone = JStr ''UTC'', leadLocations = JStr ''Berlin'',
    callDuration = JStr ''0''\<rparr>"
  have h: "parseInt (callDuration ?req) = Some 0"
    by code_simp
  from zero_duration_is_30 [where req = ?req and L = "clock 0", OF h] h
  show ?thesis by simp
qed

end
